theory Spec2Isabelle
  imports Main "HOL-Library.AList"
begin

section \<open>JavaScript values and objects\<close>

text \<open>
  The library is dynamically typed in a few places: the options object handed to
  \<open>renderView\<close> is also the data context of the template, and helpers, partials and data
  travel through it untouched. Such values are modelled by a small universe of
  JavaScript values. The parameter \<open>'a\<close> stands for host values that the library never
  inspects (compiled templates, precompiled specifications, helper functions).
  An object is an association list with its properties in insertion order; a property
  that is missing reads as \<open>Undefined\<close>.
\<close>

datatype 'a jsval =
    Undefined
  | Null
  | Bool bool
  | Num int
  | Str string
  | Arr "'a jsval list"
  | Obj "(string \<times> 'a jsval) list"
  | Host 'a

type_synonym 'a obj = "(string \<times> 'a jsval) list"

text \<open>JavaScript truthiness, as tested by \<open>if (x)\<close>, \<open>!x\<close>, \<open>x && y\<close> and \<open>x || y\<close>.\<close>

fun truthy :: "'a jsval \<Rightarrow> bool" where
  "truthy Undefined = False"
| "truthy Null = False"
| "truthy (Bool b) = b"
| "truthy (Num n) = (n \<noteq> 0)"
| "truthy (Str s) = (s \<noteq> [])"
| "truthy (Arr _) = True"
| "truthy (Obj _) = True"
| "truthy (Host _) = True"

definition js_or :: "'a jsval \<Rightarrow> 'a jsval \<Rightarrow> 'a jsval" where
  "js_or a b = (if truthy a then a else b)"

text \<open>\<open>o.k\<close> on an object held as an association list, and \<open>k in o\<close>.\<close>

definition get :: "'a obj \<Rightarrow> string \<Rightarrow> 'a jsval" where
  "get ob k = (case map_of ob k of Some v \<Rightarrow> v | None \<Rightarrow> Undefined)"

definition has_key :: "string \<Rightarrow> 'a obj \<Rightarrow> bool" where
  "has_key k ob = (map_of ob k \<noteq> None)"

text \<open>\<open>v.k\<close> on an arbitrary value: only objects carry the properties read here.\<close>

fun property :: "'a jsval \<Rightarrow> string \<Rightarrow> 'a jsval" where
  "property (Obj kv) k = get kv k"
| "property _ k = Undefined"

text \<open>
  \<open>Object.keys\<close> and \<open>for ... in\<close> do not visit the keys of an object in insertion order
  throughout: the keys that are array indices come first, in ascending numeric order,
  and the other keys follow in the order in which they were inserted. An array index is
  the decimal numeral, without sign or leading zero, of an integer from \<open>0\<close> to
  \<open>2\<^sup>3\<^sup>2 - 2\<close>.
\<close>

definition is_digit :: "char \<Rightarrow> bool" where
  "is_digit c = (48 \<le> (of_char c :: nat) \<and> (of_char c :: nat) \<le> 57)"

definition numeral_val :: "string \<Rightarrow> int" where
  "numeral_val k = foldl (\<lambda>n c. 10 * n + (of_char c - 48)) 0 k"

definition is_array_index :: "string \<Rightarrow> bool" where
  "is_array_index k =
     (k \<noteq> [] \<and> list_all is_digit k \<and> (hd k \<noteq> CHR ''0'' \<or> k = ''0'')
      \<and> numeral_val k < 4294967295)"

definition own_keys :: "'a obj \<Rightarrow> string list" where
  "own_keys kv =
     (let ks = rev (remdups (rev (map fst kv)))
      in sort_key numeral_val (filter is_array_index ks) @ filter (\<lambda>k. \<not> is_array_index k) ks)"

text \<open>
  Object spread \<open>{...acc, ...v}\<close>: for every own key of \<open>v\<close> the property of \<open>v\<close> is
  assigned; a key that is already there keeps its place and takes the new value. The
  order in which the keys of \<open>v\<close> are copied changes neither the properties of the result
  nor the order in which its keys are visited later. Spreading \<open>undefined\<close>, \<open>null\<close> or
  a primitive copies nothing.
\<close>

fun entries :: "'a jsval \<Rightarrow> 'a obj" where
  "entries (Obj kv) = kv"
| "entries _ = []"

definition spread :: "'a obj \<Rightarrow> 'a obj \<Rightarrow> 'a obj" where
  "spread acc kv = foldl (\<lambda>ob k. AList.update k (get kv k) ob) acc (map fst kv)"

text \<open>Optional strings (\<open>string | undefined\<close>): the empty string is falsy as well.\<close>

definition str_truthy :: "string option \<Rightarrow> bool" where
  "str_truthy x = (case x of None \<Rightarrow> False | Some t \<Rightarrow> t \<noteq> [])"

definition str_or :: "string option \<Rightarrow> string option \<Rightarrow> string option" where
  "str_or a b = (if str_truthy a then a else b)"

fun as_str :: "'a jsval \<Rightarrow> string option" where
  "as_str (Str t) = Some t"
| "as_str _ = None"

fun of_str :: "string option \<Rightarrow> 'a jsval" where
  "of_str (Some t) = Str t"
| "of_str None = Undefined"

text \<open>
  \<open>String.prototype.trim\<close>: white space and line terminators are removed from both
  ends. Of the code units a \<open>char\<close> can hold these are TAB, LF, VT, FF, CR, SPACE and
  NBSP.
\<close>

definition js_whitespace :: "char \<Rightarrow> bool" where
  "js_whitespace c = (of_char c \<in> {9, 10, 11, 12, 13, 32, 160 :: nat})"

definition js_trim :: "string \<Rightarrow> string" where
  "js_trim t = rev (dropWhile js_whitespace (rev (dropWhile js_whitespace t)))"

definition ends_with :: "string \<Rightarrow> string \<Rightarrow> bool" where
  "ends_with t suf = (length suf \<le> length t \<and> drop (length t - length suf) t = suf)"


section \<open>Node's \<open>path\<close> module (POSIX flavour)\<close>

text \<open>
  The library calls \<open>path.resolve\<close>, \<open>path.join\<close>, \<open>path.dirname\<close>, \<open>path.extname\<close>
  and \<open>path.relative\<close>. They are functions of the Node.js runtime; the definitions below
  follow the POSIX implementation of that module.
\<close>

fun split_on :: "char \<Rightarrow> string \<Rightarrow> string list" where
  "split_on c [] = [[]]"
| "split_on c (x # xs) =
     (if x = c then [] # split_on c xs
      else (case split_on c xs of [] \<Rightarrow> [[x]] | seg # segs \<Rightarrow> (x # seg) # segs))"

fun join_with :: "string \<Rightarrow> string list \<Rightarrow> string" where
  "join_with sep [] = []"
| "join_with sep [x] = x"
| "join_with sep (x # y # ys) = x @ sep @ join_with sep (y # ys)"

text \<open>
  \<open>normalizeString\<close>: empty segments and \<open>.\<close> are dropped, \<open>..\<close> removes the segment
  before it; above the root \<open>..\<close> is kept only when \<open>allowAboveRoot\<close> is set.
\<close>

definition norm_step :: "bool \<Rightarrow> string list \<Rightarrow> string \<Rightarrow> string list" where
  "norm_step allowAboveRoot res seg =
     (if seg = [] \<or> seg = ''.'' then res
      else if seg = ''..'' then
        (if res \<noteq> [] \<and> last res \<noteq> ''..'' then butlast res
         else if allowAboveRoot then res @ [''..'']
         else res)
      else res @ [seg])"

definition normalize_segs :: "bool \<Rightarrow> string \<Rightarrow> string list" where
  "normalize_segs allowAboveRoot p = foldl (norm_step allowAboveRoot) [] (split_on CHR ''/'' p)"

definition normalizeString :: "bool \<Rightarrow> string \<Rightarrow> string" where
  "normalizeString allowAboveRoot p = join_with ''/'' (normalize_segs allowAboveRoot p)"

definition is_absolute :: "string \<Rightarrow> bool" where
  "is_absolute p = (case p of [] \<Rightarrow> False | c # _ \<Rightarrow> c = CHR ''/'')"

text \<open>
  \<open>path.resolve(...args)\<close>: the arguments are taken from the right until an absolute one
  is met, the working directory last; empty arguments are skipped.
\<close>

fun resolve_acc :: "string list \<Rightarrow> string \<Rightarrow> string \<times> bool" where
  "resolve_acc [] resolvedPath = (resolvedPath, False)"
| "resolve_acc (p # ps) resolvedPath =
     (if p = [] then resolve_acc ps resolvedPath
      else if is_absolute p then (p @ ''/'' @ resolvedPath, True)
      else resolve_acc ps (p @ ''/'' @ resolvedPath))"

definition path_resolve :: "string \<Rightarrow> string list \<Rightarrow> string" where
  "path_resolve cwd args =
     (case resolve_acc (rev args @ [cwd]) [] of
        (resolvedPath, resolvedAbsolute) \<Rightarrow>
          (let n = normalizeString (\<not> resolvedAbsolute) resolvedPath
           in if resolvedAbsolute then ''/'' @ n
              else if n \<noteq> [] then n else ''.''))"

definition path_normalize :: "string \<Rightarrow> string" where
  "path_normalize p =
     (if p = [] then ''.''
      else
        (let isAbsolute = is_absolute p;
             trailingSeparator = (last p = CHR ''/'');
             n = normalizeString (\<not> isAbsolute) p
         in if n = [] then
              (if isAbsolute then ''/'' else if trailingSeparator then ''./'' else ''.'')
            else
              (let n' = (if trailingSeparator then n @ ''/'' else n)
               in if isAbsolute then ''/'' @ n' else n')))"

definition path_join :: "string list \<Rightarrow> string" where
  "path_join args =
     (let parts = filter (\<lambda>a. a \<noteq> []) args
      in if parts = [] then ''.'' else path_normalize (join_with ''/'' parts))"

text \<open>
  \<open>path.dirname\<close>: trailing slashes are ignored, then everything from the last slash
  on is cut; the first character is never cut.
\<close>

definition path_dirname :: "string \<Rightarrow> string" where
  "path_dirname p =
     (if p = [] then ''.''
      else
        (let hasRoot = (hd p = CHR ''/'');
             r = dropWhile (\<lambda>c. c \<noteq> CHR ''/'') (dropWhile (\<lambda>c. c = CHR ''/'') (rev (tl p)));
             cut = length r
         in if r = [] then (if hasRoot then ''/'' else ''.'')
            else if hasRoot \<and> cut = 1 then ''//''
            else take cut p))"

text \<open>
  \<open>path.extname\<close>: the part of the last segment from its last dot on; empty when there
  is no dot, when the dot is the first character of the segment, or when the segment
  is \<open>..\<close>.
\<close>

definition path_extname :: "string \<Rightarrow> string" where
  "path_extname p =
     (let rbase = takeWhile (\<lambda>c. c \<noteq> CHR ''/'') (dropWhile (\<lambda>c. c = CHR ''/'') (rev p));
          rest = dropWhile (\<lambda>c. c \<noteq> CHR ''.'') rbase
      in if rest = [] then []
         else if tl rest = [] \<or> rbase = ''..'' then []
         else CHR ''.'' # rev (takeWhile (\<lambda>c. c \<noteq> CHR ''.'') rbase))"

text \<open>
  \<open>path.relative(from, to)\<close>: both are resolved, their common leading segments are
  dropped, and one \<open>..\<close> is written for every segment left of \<open>from\<close>.
\<close>

fun drop_common :: "string list \<Rightarrow> string list \<Rightarrow> string list \<times> string list" where
  "drop_common (x # xs) (y # ys) = (if x = y then drop_common xs ys else (x # xs, y # ys))"
| "drop_common xs ys = (xs, ys)"

definition path_relative :: "string \<Rightarrow> string \<Rightarrow> string \<Rightarrow> string" where
  "path_relative cwd from to =
     (if from = to then []
      else
        (case drop_common (normalize_segs False (path_resolve cwd [from]))
                          (normalize_segs False (path_resolve cwd [to])) of
           (fs, ts) \<Rightarrow> join_with ''/'' (replicate (length fs) ''..'' @ ts)))"


section \<open>The instance and its collaborators\<close>

datatype error =
    Error string
  | TypeError string
  | FsError string
  | HandlebarsError string

text \<open>
  The file system as the library sees it: \<open>readFile(path, {encoding})\<close> and
  \<open>glob(pattern, {cwd, follow, posix})\<close>, each settling with a value or an error.
\<close>

record filesystem =
  fs_readFile :: "string \<Rightarrow> string \<Rightarrow> error + string"
  fs_glob :: "string \<Rightarrow> string \<Rightarrow> error + string list"

text \<open>
  The template engine (\<open>this.handlebars\<close>) is opaque: \<open>compile\<close> and \<open>precompile\<close>
  take the template text and the compiler options, and a compiled template is invoked
  with a context and the runtime options.
\<close>

record 'a engine =
  hb_compile :: "string \<Rightarrow> 'a jsval \<Rightarrow> error + 'a"
  hb_precompile :: "string \<Rightarrow> 'a jsval \<Rightarrow> error + 'a"
  hb_invoke :: "'a \<Rightarrow> 'a obj \<Rightarrow> 'a obj \<Rightarrow> error + string"

text \<open>
  A partials directory is a path or a configuration object
  \<open>{dir, templates, namespace, rename}\<close> (the arguments of \<open>DirConfig\<close>, in this order,
  \<open>None\<close> for a property that is not given); \<open>partialsDir\<close> holds one of them or an array.
\<close>

datatype 'a partials_dir =
    DirPath string
  | DirConfig "string option" "'a obj option" "string option"
      "(string \<Rightarrow> string option \<Rightarrow> string) option"

datatype 'a partials_spec =
    One "'a partials_dir"
  | Many "'a partials_dir list"

text \<open>What the file-system cache holds under a path: the text of a file or the listing of a directory.\<close>

datatype fs_entry =
    FileContent string
  | DirListing "string list"

text \<open>
  The calls made to the file system, in the order in which they are issued, the
  entries into \<open>render\<close>, and the \<open>throw\<close> of \<open>getPartials\<close>. This log is not part of the
  program; it records what the program does.
\<close>

datatype event =
    ReadFile string string
  | Glob string string
  | Render string
  | Thrown error

text \<open>
  The fields of a \<open>NextHandlebars\<close> object, followed by its environment: the file
  system, the working directory of the process and the log of calls.

  The three caches of the source hold promises. Every awaited operation is run to its
  end before the next one starts, so a slot is represented by the value its promise is
  fulfilled with. A promise that is rejected is put into its slot and deleted again by
  the \<open>catch\<close> block of the call that created it; in the model that call leaves the slot
  empty.
\<close>

record 'a next_handlebars =
  handlebars :: "'a engine"
  extname :: string
  encoding :: "string option"
  layoutsDir :: "string option"
  partialsDir :: "'a partials_spec option"
  defaultLayout :: "'a jsval"
  helpers :: "'a jsval"
  compilerOptions :: "'a jsval"
  runtimeOptions :: "'a jsval"
  config_partialsDir :: "'a partials_spec option"
  config_layoutsDir :: "string option"
  compiled :: "(string \<times> 'a) list"
  precompiled :: "(string \<times> 'a) list"
  fsCache :: "(string \<times> fs_entry) list"
  fs :: filesystem
  cwd :: string
  io :: "event list"

text \<open>\<open>PartialTemplateOptions\<close>; \<open>opt_cache\<close> and \<open>opt_precompiled\<close> hold the truthiness of the option.\<close>

record pt_options =
  opt_cache :: bool
  opt_encoding :: "string option"
  opt_precompiled :: bool
  opt_throwTestError :: bool


section \<open>Private helpers\<close>

text \<open>The leading underscore of the private methods is dropped in the names below.\<close>

text \<open>\<open>encoding || 'utf8'\<close>\<close>

definition or_utf8 :: "string option \<Rightarrow> string" where
  "or_utf8 e = (case str_or e (Some ''utf8'') of Some x \<Rightarrow> x | None \<Rightarrow> ''utf8'')"

definition getFile :: "string \<Rightarrow> pt_options \<Rightarrow> 'a next_handlebars \<Rightarrow> (error + fs_entry) \<times> 'a next_handlebars" where
  "getFile filePath0 options s =
     (let filePath = path_resolve (cwd s) [filePath0];
          encoding' = str_or (opt_encoding options) (encoding s)
      in case (if opt_cache options then map_of (fsCache s) filePath else None) of
           Some file \<Rightarrow> (Inr file, s)
         | None \<Rightarrow>
             (let enc = or_utf8 encoding';
                  s1 = s\<lparr>io := io s @ [ReadFile filePath enc]\<rparr>
              in case fs_readFile (fs s) filePath enc of
                   Inr text \<Rightarrow>
                     (Inr (FileContent text),
                      s1\<lparr>fsCache := AList.update filePath (FileContent text) (fsCache s1)\<rparr>)
                 | Inl err \<Rightarrow>
                     (Inl err, s1\<lparr>fsCache := AList.delete filePath (fsCache s1)\<rparr>)))"

text \<open>\<open>[...(await dir)]\<close>: a listing is copied; a string found in the slot is spread into its characters.\<close>

fun spread_listing :: "fs_entry \<Rightarrow> string list" where
  "spread_listing (DirListing files) = files"
| "spread_listing (FileContent text) = map (\<lambda>c. [c]) text"

definition getDir :: "string \<Rightarrow> pt_options \<Rightarrow> 'a next_handlebars \<Rightarrow> (error + string list) \<times> 'a next_handlebars" where
  "getDir dirPath0 options s =
     (let dirPath = path_resolve (cwd s) [dirPath0]
      in case (if opt_cache options then map_of (fsCache s) dirPath else None) of
           Some d \<Rightarrow> (Inr (spread_listing d), s)
         | None \<Rightarrow>
             (let pattern = ''**/*'' @ extname s;
                  s1 = s\<lparr>io := io s @ [Glob pattern dirPath]\<rparr>
              in case (if opt_throwTestError options then Inl (Error ''test'')
                       else fs_glob (fs s) pattern dirPath) of
                   Inr files \<Rightarrow>
                     (Inr files, s1\<lparr>fsCache := AList.update dirPath (DirListing files) (fsCache s1)\<rparr>)
                 | Inl err \<Rightarrow>
                     (Inl err, s1\<lparr>fsCache := AList.delete dirPath (fsCache s1)\<rparr>)))"

definition getTemplateName :: "string \<Rightarrow> string \<Rightarrow> string option \<Rightarrow> string" where
  "getTemplateName ext filePath ns =
     (let name = (if ends_with filePath ext then take (length filePath - length ext) filePath
                  else filePath)
      in if str_truthy ns then (case ns of Some n \<Rightarrow> n @ ''/'' @ name | None \<Rightarrow> name)
         else name)"

text \<open>
  The loop of \<open>_resolveViewsPath\<close>: \<open>dir\<close> is the parent of \<open>lastDir\<close>, and the walk ends
  when the parent of a directory is the directory itself.
\<close>

fun index_of :: "'b list \<Rightarrow> 'b \<Rightarrow> nat option" where
  "index_of [] x = None"
| "index_of (y # ys) x = (if y = x then Some 0 else map_option Suc (index_of ys x))"

definition dir_measure :: "string \<Rightarrow> nat" where
  "dir_measure p = (if p = ''.'' \<or> p = ''/'' then 0 else Suc (length p))"

function walk_up :: "string list \<Rightarrow> string list \<Rightarrow> string \<Rightarrow> string option" where
  "walk_up views absoluteViews lastDir =
     (let dir = path_dirname lastDir
      in if dir \<noteq> lastDir then
           (case index_of absoluteViews dir of
              Some index \<Rightarrow> Some (views ! index)
            | None \<Rightarrow> walk_up views absoluteViews dir)
         else None)"
  by pat_completeness auto
termination
proof (relation "measure (\<lambda>(views, absoluteViews, lastDir). dir_measure lastDir)")
  show "wf (measure (\<lambda>(views, absoluteViews, lastDir). dir_measure lastDir))"
    by simp
next
  fix views absoluteViews :: "string list" and lastDir dir :: string
  assume dir: "dir = path_dirname lastDir" and neq: "dir \<noteq> lastDir"
  have shorter: "length (dropWhile (\<lambda>c. \<not> P c) (dropWhile P xs)) < length xs"
    if ne: "dropWhile (\<lambda>c. \<not> P c) (dropWhile P xs) \<noteq> []"
    for P :: "char \<Rightarrow> bool" and xs
  proof -
    define q where "q = dropWhile P xs"
    have qne: "q \<noteq> []"
    proof
      assume "q = []"
      then have "dropWhile (\<lambda>c. \<not> P c) (dropWhile P xs) = dropWhile (\<lambda>c. \<not> P c) []"
        unfolding q_def by (rule arg_cong)
      with ne show False by (simp del: dropWhile_eq_Nil_conv)
    qed
    then obtain y ys where q: "q = y # ys" by (cases q) auto
    have "\<not> P (hd q)" using qne hd_dropWhile[of P xs] unfolding q_def by simp
    then have "\<not> P y" using q by simp
    then have "dropWhile (\<lambda>c. \<not> P c) q = dropWhile (\<lambda>c. \<not> P c) ys" using q by simp
    then have "length (dropWhile (\<lambda>c. \<not> P c) q) \<le> length ys"
      by (simp add: length_dropWhile_le)
    also have "length ys < length q" using q by simp
    also have "length q \<le> length xs" unfolding q_def by (rule length_dropWhile_le)
    finally show ?thesis unfolding q_def .
  qed
  have pne: "lastDir \<noteq> ''.''" "lastDir \<noteq> ''/''"
    using dir neq by (auto simp: path_dirname_def)
  have "dir_measure dir < dir_measure lastDir"
  proof (cases lastDir)
    case Nil
    then show ?thesis using dir by (simp add: path_dirname_def dir_measure_def)
  next
    case (Cons c cs)
    define r where
      "r = dropWhile (\<lambda>c. c \<noteq> CHR ''/'') (dropWhile (\<lambda>c. c = CHR ''/'') (rev cs))"
    have pd: "dir =
          (if r = [] then (if c = CHR ''/'' then ''/'' else ''.'')
           else if c = CHR ''/'' \<and> length r = 1 then ''//''
           else take (length r) lastDir)"
      unfolding dir path_dirname_def r_def Cons by (simp add: Let_def)
    have short: "r \<noteq> [] \<Longrightarrow> length r < length cs"
      unfolding r_def using shorter[of "\<lambda>c. c = CHR ''/''" "rev cs"] by simp
    show ?thesis
    proof (cases "r = []")
      case True
      then show ?thesis using pd pne by (simp add: dir_measure_def)
    next
      case False
      with short have lt: "length r < length cs" by simp
      show ?thesis
      proof (cases "c = CHR ''/'' \<and> length r = 1")
        case True
        then have "dir = ''//''" using pd False by simp
        moreover have "3 \<le> length lastDir" using lt True Cons by simp
        ultimately show ?thesis using pne by (simp add: dir_measure_def)
      next
        case F2: False
        then have "dir = take (length r) lastDir" using pd False by auto
        then have "length dir < length lastDir" using lt Cons by simp
        then show ?thesis using pne by (simp add: dir_measure_def)
      qed
    qed
  qed
  then show "((views, absoluteViews, dir), (views, absoluteViews, lastDir))
      \<in> measure (\<lambda>(views, absoluteViews, lastDir). dir_measure lastDir)"
    by simp
qed

text \<open>
  \<open>_resolveViewsPath(views, file)\<close>. A value that is not an array is handed back as it
  is. The entries of an array go through \<open>path.resolve\<close>, which accepts strings only.
\<close>

fun strings_of :: "'a jsval list \<Rightarrow> string list option" where
  "strings_of [] = Some []"
| "strings_of (Str t # vs) = map_option ((#) t) (strings_of vs)"
| "strings_of (_ # vs) = None"

definition resolveViewsPath :: "string \<Rightarrow> 'a jsval \<Rightarrow> string \<Rightarrow> error + 'a jsval" where
  "resolveViewsPath wd views file =
     (case views of
        Arr vs \<Rightarrow>
          (case strings_of vs of
             None \<Rightarrow> Inl (TypeError ''The \"paths[0]\" argument must be of type string'')
           | Some views' \<Rightarrow>
               (let lastDir = path_resolve wd [file];
                    absoluteViews = map (\<lambda>v. path_resolve wd [v]) views'
                in case walk_up views' absoluteViews lastDir of
                     Some v \<Rightarrow> Inr (Str v)
                   | None \<Rightarrow> Inr Null))
      | _ \<Rightarrow> Inr views)"

text \<open>
  \<open>_resolveLayoutPath(layoutPath)\<close>: nothing for a falsy layout; otherwise the extension
  is appended to a name that has none and the name is resolved against \<open>layoutsDir\<close>.
  \<open>path.extname\<close> rejects a truthy value that is not a string.
\<close>

definition resolveLayoutPath :: "'a jsval \<Rightarrow> 'a next_handlebars \<Rightarrow> error + string option" where
  "resolveLayoutPath layoutPath s =
     (if \<not> truthy layoutPath then Inr None
      else
        (case layoutPath of
           Str name \<Rightarrow>
             (let name' = (if path_extname name = [] then name @ extname s else name);
                  base = (if str_truthy (layoutsDir s) then (case layoutsDir s of Some d \<Rightarrow> d | None \<Rightarrow> [])
                          else [])
              in Inr (Some (path_resolve (cwd s) [base, name'])))
         | _ \<Rightarrow> Inl (TypeError ''The \"path\" argument must be of type string'')))"


section \<open>Protected hooks\<close>

definition compileTemplate :: "'a next_handlebars \<Rightarrow> string \<Rightarrow> 'a jsval \<Rightarrow> error + 'a" where
  "compileTemplate s template options = hb_compile (handlebars s) (js_trim template) options"

definition precompileTemplate :: "'a next_handlebars \<Rightarrow> string \<Rightarrow> 'a jsval \<Rightarrow> error + 'a" where
  "precompileTemplate s template options = hb_precompile (handlebars s) (js_trim template) options"

definition renderTemplate :: "'a next_handlebars \<Rightarrow> 'a \<Rightarrow> 'a obj \<Rightarrow> 'a obj \<Rightarrow> error + string" where
  "renderTemplate s template context options =
     (case hb_invoke (handlebars s) template context options of
        Inl err \<Rightarrow> Inl err
      | Inr out \<Rightarrow> Inr (js_trim out))"


section \<open>Templates and partials\<close>

definition template_cache :: "bool \<Rightarrow> 'a next_handlebars \<Rightarrow> (string \<times> 'a) list" where
  "template_cache pre s = (if pre then precompiled s else compiled s)"

definition set_template_cache ::
  "bool \<Rightarrow> ((string \<times> 'a) list \<Rightarrow> (string \<times> 'a) list) \<Rightarrow> 'a next_handlebars \<Rightarrow> 'a next_handlebars" where
  "set_template_cache pre f s =
     (if pre then s\<lparr>precompiled := f (precompiled s)\<rparr> else s\<lparr>compiled := f (compiled s)\<rparr>)"

text \<open>
  The callback that \<open>getTemplate\<close> chains to \<open>_getFile\<close>: the compile hook or the
  precompile hook, applied to what \<open>_getFile\<close> hands over. Both hooks trim their
  argument; a directory listing found in the slot of the file has no \<open>trim\<close>.
\<close>

definition compile_file :: "bool \<Rightarrow> 'a next_handlebars \<Rightarrow> fs_entry \<Rightarrow> error + 'a" where
  "compile_file pre s file =
     (case file of
        FileContent text \<Rightarrow>
          (if pre then precompileTemplate s text (compilerOptions s)
           else compileTemplate s text (compilerOptions s))
      | DirListing _ \<Rightarrow> Inl (TypeError ''template.trim is not a function''))"

text \<open>
  \<open>getTemplate\<close>. The slot of the template cache is assigned whenever the cache was not
  used, whatever the \<open>cache\<close> option says, and deleted again when the read or the
  compilation fails.
\<close>

definition getTemplate :: "string \<Rightarrow> pt_options \<Rightarrow> 'a next_handlebars \<Rightarrow> (error + 'a) \<times> 'a next_handlebars" where
  "getTemplate filePath0 options s =
     (let filePath = path_resolve (cwd s) [filePath0];
          encoding' = str_or (opt_encoding options) (encoding s);
          cache = template_cache (opt_precompiled options) s
      in case (if opt_cache options then map_of cache filePath else None) of
           Some template \<Rightarrow> (Inr template, s)
         | None \<Rightarrow>
             (case getFile filePath
                     \<lparr>opt_cache = opt_cache options, opt_encoding = encoding',
                      opt_precompiled = False, opt_throwTestError = False\<rparr> s of
                (Inl err, s1) \<Rightarrow>
                  (Inl err, set_template_cache (opt_precompiled options) (AList.delete filePath) s1)
              | (Inr file, s1) \<Rightarrow>
                  (case compile_file (opt_precompiled options) s1 file of
                     Inl err \<Rightarrow>
                       (Inl err, set_template_cache (opt_precompiled options) (AList.delete filePath) s1)
                   | Inr template \<Rightarrow>
                       (Inr template,
                        set_template_cache (opt_precompiled options) (AList.update filePath template) s1))))"

text \<open>
  \<open>Promise.all\<close> over calls that are all started: every call runs, and the first
  failure in the order of the list is the one reported (the calls are taken to be
  answered in the order in which they were made).
\<close>

fun promise_all :: "(error + 'b) list \<Rightarrow> error + 'b list" where
  "promise_all [] = Inr []"
| "promise_all (Inl err # rs) = Inl err"
| "promise_all (Inr x # rs) = (case promise_all rs of Inl err \<Rightarrow> Inl err | Inr xs \<Rightarrow> Inr (x # xs))"

fun load_all :: "string \<Rightarrow> string list \<Rightarrow> pt_options \<Rightarrow> 'a next_handlebars \<Rightarrow>
    (error + 'a) list \<times> 'a next_handlebars" where
  "load_all dirPath [] options s = ([], s)"
| "load_all dirPath (filePath # filePaths) options s =
     (case getTemplate (path_join [dirPath, filePath]) options s of
        (r, s1) \<Rightarrow> (case load_all dirPath filePaths options s1 of (rs, s2) \<Rightarrow> (r # rs, s2)))"

text \<open>The part of \<open>getTemplates\<close> after the listing of the directory has arrived.\<close>

definition load_templates :: "string \<Rightarrow> string list \<Rightarrow> pt_options \<Rightarrow> 'a next_handlebars \<Rightarrow>
    (error + 'a obj) \<times> 'a next_handlebars" where
  "load_templates dirPath filePaths options s =
     (case load_all dirPath filePaths options s of
        (rs, s1) \<Rightarrow>
          (case promise_all rs of
             Inl err \<Rightarrow> (Inl err, s1)
           | Inr templates \<Rightarrow>
               (Inr (foldl (\<lambda>hash (filePath, t). AList.update filePath (Host t) hash) []
                       (zip filePaths templates)), s1)))"

definition getTemplates :: "string \<Rightarrow> pt_options \<Rightarrow> 'a next_handlebars \<Rightarrow>
    (error + 'a obj) \<times> 'a next_handlebars" where
  "getTemplates dirPath options s =
     (case getDir dirPath
             \<lparr>opt_cache = opt_cache options, opt_encoding = None,
              opt_precompiled = False, opt_throwTestError = False\<rparr> s of
        (Inl err, s1) \<Rightarrow> (Inl err, s1)
      | (Inr filePaths, s1) \<Rightarrow> load_templates dirPath filePaths options s1)"

text \<open>
  \<open>getPartials\<close> starts one asynchronous callback per directory, in the order of the
  list, and awaits them together. Each callback runs without interruption up to its
  first suspension: it reads the descriptor, throws for a descriptor with neither a path
  nor templates, and otherwise takes the templates given or calls \<open>getTemplates\<close>, which
  asks \<open>_getDir\<close> for the listing. \<open>start_dir\<close> is this first part of one callback and
  \<open>finish_dir\<close> the rest of it; all callbacks are started before any is finished.
  In \<open>start_dir\<close> the path is present whenever \<open>getTemplates\<close> is reached, because a
  descriptor without templates and without a path has been rejected by then.
\<close>

type_synonym rename_fn = "string \<Rightarrow> string option \<Rightarrow> string"

datatype 'a dir_start =
    Invalid
  | Supplied "'a obj"
  | Listing string "error + string list"

fun is_invalid :: "'a dir_start \<times> string option \<times> rename_fn option \<Rightarrow> bool" where
  "is_invalid (Invalid, _) = True"
| "is_invalid _ = False"

definition config_error :: error where
  "config_error = Error ''A partials dir must be a string or config object''"

definition start_dir :: "'a partials_dir \<Rightarrow> pt_options \<Rightarrow> 'a next_handlebars \<Rightarrow>
    ('a dir_start \<times> string option \<times> rename_fn option) \<times> 'a next_handlebars" where
  "start_dir d options s =
     (case (case d of
              DirPath p \<Rightarrow> (Some p, None, None, None)
            | DirConfig dp dt dn dr \<Rightarrow> (dp, dt, dn, dr)) of
        (dirPath, dirTemplates, dirNamespace, dirRename) \<Rightarrow>
          (if \<not> str_truthy dirPath \<and> dirTemplates = None
           then ((Invalid, dirNamespace, dirRename), s\<lparr>io := io s @ [Thrown config_error]\<rparr>)
           else
             (case dirTemplates of
                Some t \<Rightarrow> ((Supplied t, dirNamespace, dirRename), s)
              | None \<Rightarrow>
                  (case dirPath of
                     None \<Rightarrow>
                       ((Invalid, dirNamespace, dirRename), s\<lparr>io := io s @ [Thrown config_error]\<rparr>)
                   | Some p \<Rightarrow>
                       (case getDir p
                               \<lparr>opt_cache = opt_cache options, opt_encoding = None,
                                opt_precompiled = False, opt_throwTestError = False\<rparr> s of
                          (r, s1) \<Rightarrow> ((Listing p r, dirNamespace, dirRename), s1))))))"

fun start_all :: "'a partials_dir list \<Rightarrow> pt_options \<Rightarrow> 'a next_handlebars \<Rightarrow>
    ('a dir_start \<times> string option \<times> rename_fn option) list \<times> 'a next_handlebars" where
  "start_all [] options s = ([], s)"
| "start_all (d # ds) options s =
     (case start_dir d options s of
        (r, s1) \<Rightarrow> (case start_all ds options s1 of (rs, s2) \<Rightarrow> (r # rs, s2)))"

fun finish_dir :: "'a dir_start \<times> string option \<times> rename_fn option \<Rightarrow> pt_options \<Rightarrow>
    'a next_handlebars \<Rightarrow>
    (error + ('a obj \<times> string option \<times> rename_fn option)) \<times> 'a next_handlebars" where
  "finish_dir (Invalid, ns, rn) options s = (Inl config_error, s)"
| "finish_dir (Supplied t, ns, rn) options s = (Inr (t, ns, rn), s)"
| "finish_dir (Listing dirPath (Inl err), ns, rn) options s = (Inl err, s)"
| "finish_dir (Listing dirPath (Inr filePaths), ns, rn) options s =
     (case load_templates dirPath filePaths options s of
        (Inl err, s1) \<Rightarrow> (Inl err, s1)
      | (Inr hash, s1) \<Rightarrow> (Inr (hash, ns, rn), s1))"

fun finish_all :: "('a dir_start \<times> string option \<times> rename_fn option) list \<Rightarrow> pt_options \<Rightarrow>
    'a next_handlebars \<Rightarrow>
    (error + ('a obj \<times> string option \<times> rename_fn option)) list \<times> 'a next_handlebars" where
  "finish_all [] options s = ([], s)"
| "finish_all (d # ds) options s =
     (case finish_dir d options s of
        (r, s1) \<Rightarrow> (case finish_all ds options s1 of (rs, s2) \<Rightarrow> (r # rs, s2)))"

text \<open>
  The loop over one directory: \<open>partials[partialName] = templates[filePath]\<close> for every
  key, in the order of \<open>Object.keys(templates)\<close>.
\<close>

definition partial_name :: "string \<Rightarrow> string option \<Rightarrow> rename_fn option \<Rightarrow> string \<Rightarrow> string" where
  "partial_name ext ns rn filePath =
     (case rn of Some f \<Rightarrow> f filePath ns | None \<Rightarrow> getTemplateName ext filePath ns)"

fun add_templates :: "string \<Rightarrow> 'a obj \<Rightarrow> 'a obj \<times> string option \<times> rename_fn option \<Rightarrow> 'a obj" where
  "add_templates ext partials (templates, ns, rn) =
     foldl (\<lambda>ps filePath. AList.update (partial_name ext ns rn filePath) (get templates filePath) ps)
       partials (own_keys templates)"

text \<open>
  A callback that throws is rejected at once, before any listing or file has arrived,
  so the configuration error is what the awaited \<open>Promise.all\<close> reports. The other
  callbacks are not cancelled by it and run to their end.
\<close>

definition getPartials :: "pt_options \<Rightarrow> 'a next_handlebars \<Rightarrow> (error + 'a obj) \<times> 'a next_handlebars" where
  "getPartials options s =
     (case partialsDir s of
        None \<Rightarrow> (Inr [], s)
      | Some spec \<Rightarrow>
          (let partialsDirs = (case spec of One d \<Rightarrow> [d] | Many ds \<Rightarrow> ds)
           in case start_all partialsDirs options s of
                (starts, s1) \<Rightarrow>
                  (case finish_all starts options s1 of
                     (dirs, s2) \<Rightarrow>
                       (if list_ex is_invalid starts then (Inl config_error, s2)
                        else
                          (case promise_all dirs of
                             Inl err \<Rightarrow> (Inl err, s2)
                           | Inr dirs' \<Rightarrow> (Inr (foldl (add_templates (extname s2)) [] dirs'), s2))))))"


section \<open>Rendering\<close>

definition set_key :: "string \<Rightarrow> 'a jsval \<Rightarrow> 'a obj \<Rightarrow> 'a obj" where
  "set_key k v ob = AList.update k v ob"

text \<open>
  The second argument with which \<open>render\<close> invokes the template: the merged runtime
  options, the data channel with the render configuration under \<open>exphbs\<close>, the merged
  helpers and the partials.
\<close>

definition template_options :: "string \<Rightarrow> 'a obj \<Rightarrow> 'a jsval \<Rightarrow> 'a next_handlebars \<Rightarrow> 'a obj" where
  "template_options filePath options partials s =
     (let helpers' = spread (spread [] (entries (helpers s))) (entries (get options ''helpers''));
          runtimeOptions' = spread (spread [] (entries (runtimeOptions s)))
                              (entries (get options ''runtimeOptions''));
          exphbs = set_key ''runtimeOptions'' (Obj runtimeOptions')
                     (set_key ''partials'' partials
                       (set_key ''helpers'' (Obj helpers')
                         (set_key ''filePath'' (Str filePath)
                           (spread [] options))));
          data = set_key ''exphbs'' (Obj exphbs) (spread [] (entries (get options ''data'')))
      in set_key ''partials'' partials
           (set_key ''helpers'' (Obj helpers')
             (set_key ''data'' (Obj data)
               (spread [] runtimeOptions'))))"

text \<open>
  The options \<open>{cache: options.cache, encoding}\<close> that \<open>render\<close> passes on. The type of
  \<open>options.encoding\<close> is a string; a value of another kind is read as absent.
\<close>

definition render_opts :: "'a obj \<Rightarrow> 'a next_handlebars \<Rightarrow> pt_options" where
  "render_opts options s =
     \<lparr>opt_cache = truthy (get options ''cache''),
      opt_encoding = str_or (as_str (get options ''encoding'')) (encoding s),
      opt_precompiled = False, opt_throwTestError = False\<rparr>"

text \<open>
  Whether \<open>getPartials\<close> is rejected by a callback that throws in its first part, that
  is, before anything is awaited.
\<close>

definition throws_at_once :: "pt_options \<Rightarrow> 'a next_handlebars \<Rightarrow> bool" where
  "throws_at_once options s =
     (case partialsDir s of
        None \<Rightarrow> False
      | Some spec \<Rightarrow>
          list_ex is_invalid (fst (start_all (case spec of One d \<Rightarrow> [d] | Many ds \<Rightarrow> ds) options s)))"

text \<open>
  \<open>render(filePath, context, options)\<close>. The template and the partials are requested
  together and both requests run; \<open>Promise.all\<close> reports the failure that arrives first.
  A configuration error of \<open>getPartials\<close> is there before the file system has answered
  anything, so it comes before a failure of the template. Otherwise the failure of the
  template is reported before a failure found while the partials are loaded: the read
  for the template is issued before every call made for the partials, and the answers
  of the file system are taken in the order of the calls.
\<close>

definition render :: "string \<Rightarrow> 'a obj \<Rightarrow> 'a obj \<Rightarrow> 'a next_handlebars \<Rightarrow>
    (error + string) \<times> 'a next_handlebars" where
  "render filePath context options s0 =
     (case getTemplate filePath (render_opts options s0) (s0\<lparr>io := io s0 @ [Render filePath]\<rparr>) of
        (t, s1) \<Rightarrow>
          (case (if truthy (get options ''partials'') then (Inr (get options ''partials''), s1)
                 else
                   (case getPartials (render_opts options s0) s1 of
                      (Inl err, s2) \<Rightarrow> (Inl err, s2)
                    | (Inr ps, s2) \<Rightarrow> (Inr (Obj ps), s2))) of
             (p, s2) \<Rightarrow>
               (case t of
                  Inl err \<Rightarrow>
                    (case p of
                       Inl err' \<Rightarrow>
                         (if throws_at_once (render_opts options s0) s1 then Inl err' else Inl err, s2)
                     | Inr partials \<Rightarrow> (Inl err, s2))
                | Inr template \<Rightarrow>
                    (case p of
                       Inl err \<Rightarrow> (Inl err, s2)
                     | Inr partials \<Rightarrow>
                         (renderTemplate s2 template context
                            (template_options filePath options partials s2), s2)))))"

text \<open>
  The second argument of \<open>renderView\<close> is an options object or the callback. The result
  below is what the callback receives, or what the promise that is returned settles
  with when no callback is given. An error raised before the \<open>try\<close> block (by
  \<open>_resolveViewsPath\<close>, \<open>path.relative\<close> or \<open>getPartials\<close>) does not reach the callback: it
  rejects the promise of \<open>renderView\<close> itself.
\<close>

datatype 'a view_arg =
    Options "'a obj"
  | Callback

definition spec_truthy :: "'a partials_spec option \<Rightarrow> bool" where
  "spec_truthy x =
     (case x of
        None \<Rightarrow> False
      | Some (One (DirPath p)) \<Rightarrow> p \<noteq> []
      | Some _ \<Rightarrow> True)"

text \<open>The block \<open>if (viewsPath) { ... }\<close>: the name of the view and the two directories.\<close>

definition derive_dirs :: "'a jsval \<Rightarrow> string \<Rightarrow> 'a next_handlebars \<Rightarrow>
    error + ('a jsval \<times> 'a next_handlebars)" where
  "derive_dirs viewsPath viewPath s =
     (if truthy viewsPath then
        (case viewsPath of
           Str vp \<Rightarrow>
             Inr (Str (getTemplateName (extname s) (path_relative (cwd s) vp viewPath) None),
                  s\<lparr>partialsDir :=
                       (if spec_truthy (config_partialsDir s) then config_partialsDir s
                        else Some (One (DirPath (path_join [vp, ''partials/''])))),
                     layoutsDir :=
                       (if str_truthy (config_layoutsDir s) then config_layoutsDir s
                        else Some (path_join [vp, ''layouts/'']))\<rparr>)
         | _ \<Rightarrow> Inl (TypeError ''The \"from\" argument must be of type string''))
      else Inr (Undefined, s))"

text \<open>
  The options, \<open>{}\<close> when the callback comes second, and \<open>options.settings &&
  options.settings.views\<close>.
\<close>

definition view_options :: "'a view_arg \<Rightarrow> 'a obj" where
  "view_options arg = (case arg of Callback \<Rightarrow> [] | Options ob \<Rightarrow> ob)"

definition views_of :: "'a obj \<Rightarrow> 'a jsval" where
  "views_of options =
     (if truthy (get options ''settings'') then property (get options ''settings'') ''views''
      else get options ''settings'')"

text \<open>
  The object \<open>renderOptions\<close>. The encoding and the helpers are computed before the
  partials are awaited (state \<open>s1\<close>), the default layout is read after (state \<open>s2\<close>).
\<close>

definition render_options :: "'a obj \<Rightarrow> 'a jsval \<Rightarrow> 'a obj \<Rightarrow> 'a next_handlebars \<Rightarrow>
    'a next_handlebars \<Rightarrow> 'a obj" where
  "render_options options view ps s1 s2 =
     [(''cache'', get options ''cache''),
      (''encoding'', of_str (str_or (as_str (get options ''encoding'')) (encoding s1))),
      (''view'', view),
      (''layout'', if has_key ''layout'' options then get options ''layout'' else defaultLayout s2),
      (''data'', get options ''data''),
      (''helpers'', Obj (spread (spread [] (entries (helpers s1)))
                          (entries (get options ''helpers'')))),
      (''partials'', Obj (spread (spread [] ps)
                           (entries (js_or (get options ''partials'') (Obj []))))),
      (''runtimeOptions'', get options ''runtimeOptions'')]"

text \<open>
  \<open>renderView\<close> up to the \<open>try\<close> block: the context, which is the options object
  itself, and the options for \<open>render\<close>.
\<close>

definition prepare_view :: "string \<Rightarrow> 'a view_arg \<Rightarrow> 'a next_handlebars \<Rightarrow>
    (error + ('a obj \<times> 'a obj)) \<times> 'a next_handlebars" where
  "prepare_view viewPath arg s =
     (case resolveViewsPath (cwd s) (views_of (view_options arg)) viewPath of
        Inl err \<Rightarrow> (Inl err, s)
      | Inr viewsPath \<Rightarrow>
          (case derive_dirs viewsPath viewPath s of
             Inl err \<Rightarrow> (Inl err, s)
           | Inr (view, s1) \<Rightarrow>
               (case getPartials (render_opts (view_options arg) s1) s1 of
                  (Inl err, s2) \<Rightarrow> (Inl err, s2)
                | (Inr ps, s2) \<Rightarrow>
                    (Inr (view_options arg, render_options (view_options arg) view ps s1 s2),
                     s2))))"

text \<open>
  \<open>renderView\<close>: the view is rendered first, then the layout around it, if there is
  one.
\<close>

definition renderView :: "string \<Rightarrow> 'a view_arg \<Rightarrow> 'a next_handlebars \<Rightarrow>
    (error + string) \<times> 'a next_handlebars" where
  "renderView viewPath arg s =
     (case prepare_view viewPath arg s of
        (Inl err, s2) \<Rightarrow> (Inl err, s2)
      | (Inr (context, renderOptions), s2) \<Rightarrow>
          (case render viewPath context renderOptions s2 of
             (Inl err, s3) \<Rightarrow> (Inl err, s3)
           | (Inr html, s3) \<Rightarrow>
               (case resolveLayoutPath (get renderOptions ''layout'') s3 of
                  Inl err \<Rightarrow> (Inl err, s3)
                | Inr None \<Rightarrow> (Inr html, s3)
                | Inr (Some layoutPath) \<Rightarrow>
                    render layoutPath
                      (set_key ''body'' (Str html) (spread [] context))
                      (set_key ''layout'' Undefined (spread [] renderOptions))
                      s3)))"


section \<open>Cache invalidation\<close>

datatype selector =
    NoSelector
  | PathSelector string
  | FilterSelector "string \<Rightarrow> bool"
  | ListSelector "string list"

definition resetCache :: "selector \<Rightarrow> 'a next_handlebars \<Rightarrow> 'a next_handlebars" where
  "resetCache filePathsOrFilter s =
     (let filePaths =
            (case filePathsOrFilter of
               NoSelector \<Rightarrow> map fst (fsCache s)
             | PathSelector p \<Rightarrow> [p]
             | FilterSelector f \<Rightarrow> filter f (map fst (fsCache s))
             | ListSelector ps \<Rightarrow> ps)
      in s\<lparr>fsCache := foldl (\<lambda>cache filePath. AList.delete filePath cache) (fsCache s) filePaths\<rparr>)"


section \<open>A small engine and an in-memory file system\<close>

text \<open>
  To run the functions above on concrete inputs: an engine, a file system given by a
  table of files and a table of directory listings, and the instance that \<open>create()\<close>
  builds from an empty configuration.

  The engine follows Handlebars in when it fails. \<open>compile\<close> only wraps the text in a
  function and parses it when that function is called first, so a malformed template
  compiles and fails when it is invoked; \<open>precompile\<close> parses at once. A compiled
  template is represented by its text; invoking it replaces every \<open>{{name}}\<close> or
  \<open>{{{name}}}\<close> by the string bound to \<open>name\<close> in the context. The listing of a
  directory that is missing or unreadable is empty, as \<open>glob\<close> gives it.
\<close>

fun expand :: "'a obj \<Rightarrow> string option \<Rightarrow> string \<Rightarrow> string" where
  "expand ctx None [] = []"
| "expand ctx (Some k) [] = []"
| "expand ctx None (c # cs) =
     (if c = CHR ''{'' then expand ctx (Some []) cs
      else if c = CHR ''}'' then expand ctx None cs
      else c # expand ctx None cs)"
| "expand ctx (Some k) (c # cs) =
     (if c = CHR ''{'' then expand ctx (Some k) cs
      else if c = CHR ''}'' then (case get ctx k of Str v \<Rightarrow> v | _ \<Rightarrow> []) @ expand ctx None cs
      else expand ctx (Some (k @ [c])) cs)"

definition balanced :: "string \<Rightarrow> bool" where
  "balanced t = (length (filter (\<lambda>c. c = CHR ''{'') t) = length (filter (\<lambda>c. c = CHR ''}'') t))"

definition demo_engine :: "string engine" where
  "demo_engine =
     \<lparr>hb_compile = (\<lambda>t opts. Inr t),
      hb_precompile = (\<lambda>t opts. if balanced t then Inr (''spec:'' @ t)
                                 else Inl (HandlebarsError ''Parse error'')),
      hb_invoke = (\<lambda>t ctx opts. if balanced t then Inr (expand ctx None t)
                                 else Inl (HandlebarsError ''Parse error''))\<rparr>"

definition mem_fs :: "(string \<times> string) list \<Rightarrow> (string \<times> string list) list \<Rightarrow> filesystem" where
  "mem_fs files dirs =
     \<lparr>fs_readFile = (\<lambda>p enc. case map_of files p of
                                Some t \<Rightarrow> Inr t
                              | None \<Rightarrow> Inl (FsError ''ENOENT'')),
      fs_glob = (\<lambda>pattern d. case map_of dirs d of Some files \<Rightarrow> Inr files | None \<Rightarrow> Inr [])\<rparr>"

definition create :: "'a engine \<Rightarrow> filesystem \<Rightarrow> string \<Rightarrow> 'a next_handlebars" where
  "create hb fsys wd =
     \<lparr>handlebars = hb,
      extname = ''.handlebars'',
      encoding = Some ''utf8'',
      layoutsDir = None,
      partialsDir = None,
      defaultLayout = Str ''main'',
      helpers = Undefined,
      compilerOptions = Undefined,
      runtimeOptions = Undefined,
      config_partialsDir = None,
      config_layoutsDir = None,
      compiled = [],
      precompiled = [],
      fsCache = [],
      fs = fsys,
      cwd = wd,
      io = []\<rparr>"

definition no_cache :: pt_options where
  "no_cache = \<lparr>opt_cache = False, opt_encoding = None, opt_precompiled = False,
                opt_throwTestError = False\<rparr>"

definition demo_fs :: filesystem where
  "demo_fs =
     mem_fs
       [(''/app/views/home.handlebars'', ''  <p>{{title}}</p>  ''),
        (''/app/views/layouts/main.handlebars'', ''<body>{{{body}}}</body>''),
        (''/app/views/partials/card.handlebars'', ''<div>card</div>''),
        (''/app/shared/card.handlebars'', ''<div>shared</div>''),
        (''/app/views/broken.handlebars'', ''<p>{{title</p>''),
        (''/app/views/echo.handlebars'', ''{{encoding}}|{{title}}'')]
       [(''/app/views/partials'', [''card.handlebars'']),
        (''/app/shared'', [''card.handlebars''])]"

definition demo :: "string next_handlebars" where
  "demo = create demo_engine demo_fs ''/app''"


section \<open>What a call leaves alone\<close>

text \<open>
  \<open>unchanged s s'\<close>: the configuration and the environment are the same in both states.
  \<open>grows P s s'\<close>: moreover the log of \<open>s'\<close> is the log of \<open>s\<close> followed by events that
  satisfy \<open>P\<close>.
\<close>

definition unchanged :: "'a next_handlebars \<Rightarrow> 'a next_handlebars \<Rightarrow> bool" where
  "unchanged s s' =
     (handlebars s' = handlebars s \<and> extname s' = extname s \<and> encoding s' = encoding s \<and>
      layoutsDir s' = layoutsDir s \<and> partialsDir s' = partialsDir s \<and>
      defaultLayout s' = defaultLayout s \<and> helpers s' = helpers s \<and>
      compilerOptions s' = compilerOptions s \<and> runtimeOptions s' = runtimeOptions s \<and>
      config_partialsDir s' = config_partialsDir s \<and> config_layoutsDir s' = config_layoutsDir s \<and>
      fs s' = fs s \<and> cwd s' = cwd s)"

definition grows :: "(event \<Rightarrow> bool) \<Rightarrow> 'a next_handlebars \<Rightarrow> 'a next_handlebars \<Rightarrow> bool" where
  "grows P s s' = (unchanged s s' \<and> (\<exists>evs. io s' = io s @ evs \<and> list_all P evs))"

fun is_fs_call :: "event \<Rightarrow> bool" where
  "is_fs_call (ReadFile _ _) = True"
| "is_fs_call (Glob _ _) = True"
| "is_fs_call _ = False"

fun is_glob :: "event \<Rightarrow> bool" where
  "is_glob (Glob _ _) = True"
| "is_glob _ = False"

fun is_render :: "event \<Rightarrow> bool" where
  "is_render (Render _) = True"
| "is_render _ = False"

section \<open>Instances and notions used in the statements\<close>

text \<open>A state with some entries in its caches.\<close>

definition warm :: "string next_handlebars" where
  "warm = demo
     \<lparr>compiled := [(''/app/views/home.handlebars'', ''<p>old</p>'')],
      precompiled := [(''/app/views/home.handlebars'', ''spec:<p>old</p>'')],
      fsCache := [(''/app/views/home.handlebars'', FileContent ''<p>old</p>''),
                  (''/app/views/partials'', DirListing [''old.handlebars'']),
                  (''/app/views/gone.handlebars'', FileContent ''gone'')]\<rparr>"


text \<open>Segments as \<open>normalizeString\<close> leaves them: not empty, not \<open>.\<close> or \<open>..\<close>, without a slash.\<close>

definition clean :: "string list \<Rightarrow> bool" where
  "clean segs = (\<forall>t\<in>set segs. t \<noteq> [] \<and> t \<noteq> ''.'' \<and> t \<noteq> ''..'' \<and> CHR ''/'' \<notin> set t)"


definition use_cache :: pt_options where
  "use_cache = \<lparr>opt_cache = True, opt_encoding = None, opt_precompiled = False,
                 opt_throwTestError = False\<rparr>"


text \<open>The events that the first part of a callback of \<open>getPartials\<close> can add to the log.\<close>

definition start_event :: "event \<Rightarrow> bool" where
  "start_event e = (is_glob e \<or> e = Thrown config_error)"

text \<open>A descriptor that gives neither a path nor templates; the empty string is no path.\<close>

fun no_path_no_templates :: "'a partials_dir \<Rightarrow> bool" where
  "no_path_no_templates (DirPath p) = (p = [])"
| "no_path_no_templates (DirConfig dp dt dn dr) = (\<not> str_truthy dp \<and> dt = None)"

definition dirs_of :: "'a partials_spec \<Rightarrow> 'a partials_dir list" where
  "dirs_of spec = (case spec of One d \<Rightarrow> [d] | Many ds \<Rightarrow> ds)"

definition two_dirs :: "string next_handlebars" where
  "two_dirs = demo\<lparr>partialsDir :=
     Some (Many [DirPath ''/app/views/partials'', DirConfig None None (Some ''x'') None])\<rparr>"


text \<open>
  The properties of a descriptor as the callback of \<open>getPartials\<close> reads them, and the
  names under which the templates of one loaded directory are entered, in the order of
  its keys.
\<close>

fun dir_templates :: "'a partials_dir \<Rightarrow> 'a obj option" where
  "dir_templates (DirPath p) = None"
| "dir_templates (DirConfig dp dt dn dr) = dt"

fun dir_namespace :: "'a partials_dir \<Rightarrow> string option" where
  "dir_namespace (DirPath p) = None"
| "dir_namespace (DirConfig dp dt dn dr) = dn"

fun dir_rename :: "'a partials_dir \<Rightarrow> rename_fn option" where
  "dir_rename (DirPath p) = None"
| "dir_rename (DirConfig dp dt dn dr) = dr"



definition ns_dirs :: "string next_handlebars" where
  "ns_dirs = demo\<lparr>partialsDir :=
     Some (Many [DirConfig (Some ''/app/views/partials'') None (Some ''x'') None,
                 DirPath ''shared''])\<rparr>"

definition same_dirs :: "string next_handlebars" where
  "same_dirs = demo\<lparr>partialsDir :=
     Some (Many [DirPath ''/app/views/partials'', DirPath ''shared''])\<rparr>"


text \<open>Three option objects for \<open>renderView\<close>.\<close>

definition home_options :: "string obj" where
  "home_options = [(''title'', Str ''Hi''), (''settings'', Obj [(''views'', Str ''/app/views'')])]"

definition no_layout_options :: "string obj" where
  "no_layout_options =
     [(''title'', Str ''Hi''), (''layout'', Bool False),
      (''settings'', Obj [(''views'', Arr [Str ''/other'', Str ''/app/views''])])]"

definition echo_options :: "string obj" where
  "echo_options = [(''title'', Str ''Hi''), (''encoding'', Str ''latin1''), (''layout'', Bool False)]"


text \<open>The options that \<open>renderView\<close> builds for \<open>render\<close> from them on the instance \<open>demo\<close>.\<close>

definition home_render_options :: "string obj" where
  "home_render_options =
     [(''cache'', Undefined), (''encoding'', Str ''utf8''), (''view'', Str ''home''),
      (''layout'', Str ''main''), (''data'', Undefined), (''helpers'', Obj []),
      (''partials'', Obj [(''card'', Host ''<div>card</div>'')]),
      (''runtimeOptions'', Undefined)]"

definition no_layout_render_options :: "string obj" where
  "no_layout_render_options =
     [(''cache'', Undefined), (''encoding'', Str ''utf8''), (''view'', Str ''home''),
      (''layout'', Bool False), (''data'', Undefined), (''helpers'', Obj []),
      (''partials'', Obj [(''card'', Host ''<div>card</div>'')]),
      (''runtimeOptions'', Undefined)]"

definition echo_render_options :: "string obj" where
  "echo_render_options =
     [(''cache'', Undefined), (''encoding'', Str ''latin1''), (''view'', Undefined),
      (''layout'', Bool False), (''data'', Undefined), (''helpers'', Obj []),
      (''partials'', Obj []), (''runtimeOptions'', Undefined)]"


text \<open>
  The \<open>k\<close>-th parent directory of a path, as long as each step of \<open>path.dirname\<close> leads
  to a different directory; above the root there is none.
\<close>

fun nth_parent :: "nat \<Rightarrow> string \<Rightarrow> string option" where
  "nth_parent 0 p = Some p"
| "nth_parent (Suc k) p =
     (case nth_parent k p of
        None \<Rightarrow> None
      | Some d \<Rightarrow> if path_dirname d = d then None else Some (path_dirname d))"

definition other_options :: "string obj" where
  "other_options = [(''title'', Str ''Hi''), (''settings'', Obj [(''views'', Str ''/other'')])]"

definition listed_options :: "string obj" where
  "listed_options =
     [(''settings'', Obj [(''views'', Arr [Str ''/other'', Str ''/app'', Str ''views'', Str ''/app/views''])])]"


definition unlisted_options :: "string obj" where
  "unlisted_options = [(''settings'', Obj [(''views'', Arr [Str ''/other''])])]"


text \<open>The paths that a value of \<open>partialsDir\<close> names.\<close>

fun dir_path :: "'a partials_dir \<Rightarrow> string option" where
  "dir_path (DirPath p) = Some p"
| "dir_path (DirConfig dp dt dn dr) = dp"

fun dir_paths :: "'a partials_spec option \<Rightarrow> string option list" where
  "dir_paths None = []"
| "dir_paths (Some (One d)) = [dir_path d]"
| "dir_paths (Some (Many ds)) = map dir_path ds"


text \<open>
  A render of the malformed template \<open>broken.handlebars\<close> with the cache enabled, the
  state it leaves, and that state after the file has been repaired on disk.
\<close>

definition title_context :: "string obj" where
  "title_context = [(''title'', Str ''Hi'')]"

definition cache_options :: "string obj" where
  "cache_options = [(''cache'', Bool True)]"

definition after_broken_render :: "string next_handlebars" where
  "after_broken_render = snd (render ''views/broken.handlebars'' title_context cache_options demo)"

definition repaired :: "string next_handlebars" where
  "repaired = after_broken_render
     \<lparr>fs := mem_fs [(''/app/views/broken.handlebars'', ''<p>{{title}}</p>'')] []\<rparr>"











text \<open>
  The state in which every file holds its text without the white space at both ends,
  on disk and in the file-system cache. Everything else is as it is.
\<close>

fun trim_entry :: "fs_entry \<Rightarrow> fs_entry" where
  "trim_entry (FileContent content) = FileContent (js_trim content)"
| "trim_entry (DirListing files) = DirListing files"

definition trim_files :: "'a next_handlebars \<Rightarrow> 'a next_handlebars" where
  "trim_files s =
     s\<lparr>fs := \<lparr>fs_readFile = (\<lambda>p enc. case fs_readFile (fs s) p enc of
                                           Inl err \<Rightarrow> Inl err
                                         | Inr content \<Rightarrow> Inr (js_trim content)),
                 fs_glob = fs_glob (fs s)\<rparr>,
        fsCache := map (\<lambda>(k, e). (k, trim_entry e)) (fsCache s)\<rparr>"

text \<open>
  The paths that \<open>getPartials\<close> lists, resolved: those of the descriptors that give no
  templates. Such a path names a directory when reading it as a file fails and the
  file-system cache holds no text of a file under it.
\<close>

definition dir_keys :: "'a partials_dir list \<Rightarrow> 'a next_handlebars \<Rightarrow> string list" where
  "dir_keys ds s =
     concat (map (\<lambda>d. case dir_templates d of
                         Some t \<Rightarrow> []
                       | None \<Rightarrow> (case dir_path d of
                                    None \<Rightarrow> []
                                  | Some p \<Rightarrow> [path_resolve (cwd s) [p]]))
               ds)"

definition listed_dirs :: "'a next_handlebars \<Rightarrow> string list" where
  "listed_dirs s =
     (case partialsDir s of None \<Rightarrow> [] | Some spec \<Rightarrow> dir_keys (dirs_of spec) s)"

definition is_directory :: "'a next_handlebars \<Rightarrow> string \<Rightarrow> bool" where
  "is_directory s k =
     ((\<forall>enc. isl (fs_readFile (fs s) k enc)) \<and>
      (\<forall>content. map_of (fsCache s) k \<noteq> Some (FileContent content)))"


text \<open>
  The instance \<open>ns_dirs\<close> on two file systems whose templates have blank lines and
  spaces around the same texts.
\<close>

definition padded_fs :: filesystem where
  "padded_fs =
     mem_fs
       [(''/app/views/home.handlebars'', ''\<newline>\<newline><p>{{title}}</p>\<newline>''),
        (''/app/views/partials/card.handlebars'', ''  <div>card</div>\<newline>''),
        (''/app/shared/card.handlebars'', ''<div>shared</div>\<newline>\<newline>'')]
       [(''/app/views/partials'', [''card.handlebars'']),
        (''/app/shared'', [''card.handlebars''])]"

definition padded :: "string next_handlebars" where
  "padded = ns_dirs\<lparr>fs := padded_fs\<rparr>"


definition spaced :: "string next_handlebars" where
  "spaced = ns_dirs\<lparr>fs :=
     mem_fs
       [(''/app/views/home.handlebars'', '' <p>{{title}}</p>  ''),
        (''/app/views/partials/card.handlebars'', ''<div>card</div>''),
        (''/app/shared/card.handlebars'', ''\<newline><div>shared</div>'')]
       [(''/app/views/partials'', [''card.handlebars'']),
        (''/app/shared'', [''card.handlebars''])]\<rparr>"


section \<open>Association lists\<close>

lemma map_of_foldl_delete:
  "map_of (foldl (\<lambda>cache filePath. AList.delete filePath cache) al ks) =
   (\<lambda>k. if k \<in> set ks then None else map_of al k)"
proof (induction ks arbitrary: al)
  case Nil
  show ?case by simp
next
  case (Cons k ks)
  show ?case
    by (rule ext) (simp add: Cons.IH delete_conv')
qed

lemma foldl_delete_absent:
  "\<forall>k\<in>set ks. map_of al k = None \<Longrightarrow>
   foldl (\<lambda>cache filePath. AList.delete filePath cache) al ks = al"
proof (induction ks arbitrary: al)
  case Nil
  show ?case by simp
next
  case (Cons k ks)
  from Cons.prems have "map_of al k = None" by simp
  then have "k \<notin> fst ` set al" by (simp add: map_of_eq_None_iff)
  then have "AList.delete k al = al" by (simp add: AList.delete_id)
  with Cons show ?case by simp
qed


section \<open>Cache invalidation\<close>

text \<open>
  C9. \<open>resetCache\<close> without a selector empties the file-system cache; with a string it
  removes that key, with a list the keys listed, with a predicate the cached keys for
  which the predicate holds, and nothing else. Removing keys that are not cached changes
  nothing. The function is total, so it never fails, and the caches of compiled and
  precompiled templates, like every other field, stay as they are.
\<close>

theorem resetCache_selectors:
  "map_of (fsCache (resetCache NoSelector s)) = Map.empty
   \<and> map_of (fsCache (resetCache (PathSelector p) s)) = (map_of (fsCache s))(p := None)
   \<and> map_of (fsCache (resetCache (ListSelector ps) s)) =
       (\<lambda>k. if k \<in> set ps then None else map_of (fsCache s) k)
   \<and> map_of (fsCache (resetCache (FilterSelector f) s)) =
       (\<lambda>k. if f k then None else map_of (fsCache s) k)
   \<and> ((\<forall>k\<in>set ps. map_of (fsCache s) k = None) \<longrightarrow> resetCache (ListSelector ps) s = s)
   \<and> (map_of (fsCache s) p = None \<longrightarrow> resetCache (PathSelector p) s = s)
   \<and> compiled (resetCache sel s) = compiled s
   \<and> precompiled (resetCache sel s) = precompiled s
   \<and> resetCache sel s = s\<lparr>fsCache := fsCache (resetCache sel s)\<rparr>"
proof -
  have a: "map_of (fsCache (resetCache NoSelector s)) = Map.empty"
    by (rule ext) (simp add: resetCache_def map_of_foldl_delete map_of_eq_None_iff)
  have b: "map_of (fsCache (resetCache (PathSelector p) s)) = (map_of (fsCache s))(p := None)"
    by (simp add: resetCache_def delete_conv')
  have c: "map_of (fsCache (resetCache (ListSelector ps) s)) =
       (\<lambda>k. if k \<in> set ps then None else map_of (fsCache s) k)"
    by (simp add: resetCache_def map_of_foldl_delete)
  have d: "map_of (fsCache (resetCache (FilterSelector f) s)) =
       (\<lambda>k. if f k then None else map_of (fsCache s) k)"
    by (rule ext) (auto simp: resetCache_def map_of_foldl_delete map_of_eq_None_iff)
  have e: "(\<forall>k\<in>set ps. map_of (fsCache s) k = None) \<longrightarrow> resetCache (ListSelector ps) s = s"
    by (simp add: resetCache_def foldl_delete_absent)
  have f: "map_of (fsCache s) p = None \<longrightarrow> resetCache (PathSelector p) s = s"
    using foldl_delete_absent[of "[p]" "fsCache s"] by (simp add: resetCache_def)
  have g: "compiled (resetCache sel s) = compiled s" "precompiled (resetCache sel s) = precompiled s"
    "resetCache sel s = s\<lparr>fsCache := fsCache (resetCache sel s)\<rparr>"
    by (simp_all add: resetCache_def)
  from a b c d e f g show ?thesis by blast
qed

theorem resetCache_selectors_witness:
  "map_of (fsCache warm) ''/nowhere'' = None
   \<and> resetCache (PathSelector ''/nowhere'') warm = warm
   \<and> map_of (fsCache warm) ''/void'' = None
   \<and> resetCache (ListSelector [''/nowhere'', ''/void'']) warm = warm
   \<and> map fst (fsCache (resetCache (PathSelector ''/app/views/partials'') warm)) =
       [''/app/views/home.handlebars'', ''/app/views/gone.handlebars'']
   \<and> map fst (fsCache (resetCache (FilterSelector (\<lambda>k. ends_with k ''.handlebars'')) warm)) =
       [''/app/views/partials'']
   \<and> fsCache (resetCache NoSelector warm) = []
   \<and> compiled (resetCache NoSelector warm) = compiled warm
   \<and> precompiled (resetCache NoSelector warm) = precompiled warm"
  using resetCache_selectors[of warm "''/nowhere''" "[''/nowhere'', ''/void'']"
      "\<lambda>k. ends_with k ''.handlebars''" NoSelector]
  by (simp add: warm_def demo_def create_def resetCache_def ends_with_def AList.delete_eq)

section \<open>Resolved paths\<close>

text \<open>
  A path that \<open>path.resolve\<close> returns is resolved to itself, provided the working
  directory is absolute, as \<open>process.cwd()\<close> is.
\<close>

lemma split_on_nonempty: "split_on c xs \<noteq> []"
  by (induction xs) (auto split: list.splits)

lemma split_on_append_sep:
  "c \<notin> set t \<Longrightarrow> split_on c (t @ c # rest) = t # split_on c rest"
  by (induction t) (auto split: list.splits simp: split_on_nonempty)

lemma split_on_no_sep: "c \<notin> set t \<Longrightarrow> split_on c t = [t]"
  by (induction t) (auto split: list.splits)

lemma split_on_parts: "t \<in> set (split_on c xs) \<Longrightarrow> c \<notin> set t"
  by (induction xs arbitrary: t) (auto split: if_splits list.splits)

lemma split_join_sep:
  "clean segs \<Longrightarrow> segs \<noteq> [] \<Longrightarrow>
   split_on CHR ''/'' (join_with ''/'' segs @ ''/'') = segs @ [[]]"
proof (induction segs)
  case Nil
  then show ?case by simp
next
  case (Cons x xs)
  then have x: "CHR ''/'' \<notin> set x" and rest: "clean xs" by (simp_all add: clean_def)
  show ?case
  proof (cases xs)
    case Nil
    then show ?thesis using x split_on_append_sep[of "CHR ''/''" x "[]"] by simp
  next
    case (Cons y ys)
    then have "join_with ''/'' (x # xs) @ ''/'' = x @ CHR ''/'' # (join_with ''/'' xs @ ''/'')"
      by simp
    moreover have "split_on CHR ''/'' (join_with ''/'' xs @ ''/'') = xs @ [[]]"
      using Cons.IH[OF rest] Cons by simp
    ultimately show ?thesis
      using x split_on_append_sep[of "CHR ''/''" x "join_with ''/'' xs @ ''/''"]
      by simp
  qed
qed

lemma norm_clean_append:
  "clean segs \<Longrightarrow> foldl (norm_step False) acc segs = acc @ segs"
  by (induction segs arbitrary: acc) (auto simp: clean_def norm_step_def)

lemma norm_step_clean:
  "clean acc \<Longrightarrow> CHR ''/'' \<notin> set seg \<Longrightarrow> clean (norm_step False acc seg)"
  by (auto simp: clean_def norm_step_def dest: in_set_butlastD)

lemma foldl_norm_clean:
  "clean acc \<Longrightarrow> \<forall>t\<in>set segs. CHR ''/'' \<notin> set t \<Longrightarrow> clean (foldl (norm_step False) acc segs)"
  by (induction segs arbitrary: acc) (simp_all add: norm_step_clean)

lemma normalize_segs_clean: "clean (normalize_segs False p)"
  unfolding normalize_segs_def
  by (rule foldl_norm_clean) (auto simp: clean_def dest: split_on_parts)

lemma resolve_absolute_form:
  assumes "is_absolute wd"
  shows "\<exists>segs. clean segs \<and> path_resolve wd [x] = ''/'' @ join_with ''/'' segs"
proof -
  have "\<exists>rp. resolve_acc [x, wd] [] = (rp, True)"
    using assms by (auto simp: is_absolute_def split: list.splits)
  then obtain rp where "resolve_acc [x, wd] [] = (rp, True)" ..
  then have "path_resolve wd [x] = ''/'' @ join_with ''/'' (normalize_segs False rp)"
    by (simp add: path_resolve_def normalizeString_def)
  then show ?thesis using normalize_segs_clean by blast
qed

lemma resolve_clean_fixed:
  assumes "clean segs"
  shows "path_resolve wd [''/'' @ join_with ''/'' segs] = ''/'' @ join_with ''/'' segs"
proof -
  have "normalize_segs False (''/'' @ join_with ''/'' segs @ ''/'') = segs"
  proof (cases "segs = []")
    case True
    then show ?thesis by (simp add: normalize_segs_def norm_step_def)
  next
    case False
    then have "split_on CHR ''/'' (''/'' @ join_with ''/'' segs @ ''/'') = [] # segs @ [[]]"
      using split_join_sep[OF assms] by simp
    then show ?thesis
      using norm_clean_append[OF assms, of "[]"]
      by (simp add: normalize_segs_def norm_step_def)
  qed
  then show ?thesis
    by (simp add: path_resolve_def normalizeString_def is_absolute_def)
qed

lemma path_resolve_idem:
  "is_absolute wd \<Longrightarrow> path_resolve wd [path_resolve wd [x]] = path_resolve wd [x]"
  using resolve_absolute_form[of wd x] resolve_clean_fixed by metis

section \<open>The file-system cache and the template caches\<close>

lemma str_or_idem: "str_or (str_or a b) b = str_or a b"
  by (simp add: str_or_def)

lemma unchanged_refl: "unchanged s s"
  by (simp add: unchanged_def)

lemma unchanged_trans: "unchanged s s' \<Longrightarrow> unchanged s' s'' \<Longrightarrow> unchanged s s''"
  by (simp add: unchanged_def)

lemma grows_refl: "grows P s s"
  by (simp add: grows_def unchanged_refl)

lemma grows_trans: "grows P s s' \<Longrightarrow> grows P s' s'' \<Longrightarrow> grows P s s''"
  unfolding grows_def
  by (auto intro: unchanged_trans)

lemma grows_mono: "grows P s s' \<Longrightarrow> (\<And>e. P e \<Longrightarrow> Q e) \<Longrightarrow> grows Q s s'"
  unfolding grows_def by (auto simp: list_all_iff)

lemma grows_unchanged: "grows P s s' \<Longrightarrow> unchanged s s'"
  by (simp add: grows_def)

lemma getFile_miss:
  assumes "opt_cache options \<longrightarrow> map_of (fsCache s) (path_resolve (cwd s) [fp]) = None"
  shows "getFile fp options s =
    (case fs_readFile (fs s) (path_resolve (cwd s) [fp])
            (or_utf8 (str_or (opt_encoding options) (encoding s))) of
       Inr text \<Rightarrow>
         (Inr (FileContent text),
          s\<lparr>io := io s @ [ReadFile (path_resolve (cwd s) [fp])
                             (or_utf8 (str_or (opt_encoding options) (encoding s)))],
            fsCache := AList.update (path_resolve (cwd s) [fp]) (FileContent text) (fsCache s)\<rparr>)
     | Inl err \<Rightarrow>
         (Inl err,
          s\<lparr>io := io s @ [ReadFile (path_resolve (cwd s) [fp])
                             (or_utf8 (str_or (opt_encoding options) (encoding s)))],
            fsCache := AList.delete (path_resolve (cwd s) [fp]) (fsCache s)\<rparr>))"
  using assms by (auto simp: getFile_def Let_def split: sum.splits)

lemma getFile_hit:
  assumes "opt_cache options" "map_of (fsCache s) (path_resolve (cwd s) [fp]) = Some file"
  shows "getFile fp options s = (Inr file, s)"
  using assms by (simp add: getFile_def Let_def)

lemma getFile_grows: "grows is_fs_call s (snd (getFile fp options s))"
  by (auto simp: getFile_def Let_def grows_def unchanged_def split: option.splits sum.splits)

lemma getFile_templates:
  "compiled (snd (getFile fp options s)) = compiled s"
  "precompiled (snd (getFile fp options s)) = precompiled s"
  by (auto simp: getFile_def Let_def split: option.splits sum.splits)

lemma getDir_miss:
  assumes "opt_cache options \<longrightarrow> map_of (fsCache s) (path_resolve (cwd s) [dp]) = None"
  shows "getDir dp options s =
    (case (if opt_throwTestError options then Inl (Error ''test'')
           else fs_glob (fs s) (''**/*'' @ extname s) (path_resolve (cwd s) [dp])) of
       Inr files \<Rightarrow>
         (Inr files,
          s\<lparr>io := io s @ [Glob (''**/*'' @ extname s) (path_resolve (cwd s) [dp])],
            fsCache := AList.update (path_resolve (cwd s) [dp]) (DirListing files) (fsCache s)\<rparr>)
     | Inl err \<Rightarrow>
         (Inl err,
          s\<lparr>io := io s @ [Glob (''**/*'' @ extname s) (path_resolve (cwd s) [dp])],
            fsCache := AList.delete (path_resolve (cwd s) [dp]) (fsCache s)\<rparr>))"
  using assms by (auto simp: getDir_def Let_def split: sum.splits)

lemma getDir_grows: "grows is_glob s (snd (getDir dp options s))"
  by (auto simp: getDir_def Let_def grows_def unchanged_def split: option.splits sum.splits)


lemma template_cache_simps:
  "template_cache pre (s\<lparr>io := x\<rparr>) = template_cache pre s"
  "template_cache pre (s\<lparr>fsCache := y\<rparr>) = template_cache pre s"
  "template_cache pre (set_template_cache pre f s) = f (template_cache pre s)"
  "fsCache (set_template_cache pre f s) = fsCache s"
  "io (set_template_cache pre f s) = io s"
  by (simp_all add: template_cache_def set_template_cache_def)

lemma set_template_cache_unchanged: "unchanged s (set_template_cache pre f s)"
  by (simp add: unchanged_def set_template_cache_def)

lemma getTemplate_hit:
  assumes "opt_cache options"
    and "map_of (template_cache (opt_precompiled options) s) (path_resolve (cwd s) [fp]) = Some t"
  shows "getTemplate fp options s = (Inr t, s)"
  using assms by (simp add: getTemplate_def Let_def)

lemma getTemplate_miss:
  assumes "opt_cache options \<longrightarrow>
      map_of (template_cache (opt_precompiled options) s) (path_resolve (cwd s) [fp]) = None"
  shows "getTemplate fp options s =
    (case getFile (path_resolve (cwd s) [fp])
            \<lparr>opt_cache = opt_cache options,
             opt_encoding = str_or (opt_encoding options) (encoding s),
             opt_precompiled = False, opt_throwTestError = False\<rparr> s of
       (Inl err, s1) \<Rightarrow>
         (Inl err,
          set_template_cache (opt_precompiled options) (AList.delete (path_resolve (cwd s) [fp])) s1)
     | (Inr file, s1) \<Rightarrow>
         (case compile_file (opt_precompiled options) s1 file of
            Inl err \<Rightarrow>
              (Inl err,
               set_template_cache (opt_precompiled options)
                 (AList.delete (path_resolve (cwd s) [fp])) s1)
          | Inr t \<Rightarrow>
              (Inr t,
               set_template_cache (opt_precompiled options)
                 (AList.update (path_resolve (cwd s) [fp]) t) s1)))"
proof (cases "opt_cache options")
  case True
  with assms show ?thesis by (simp add: getTemplate_def Let_def)
next
  case False
  then show ?thesis by (simp add: getTemplate_def Let_def)
qed

lemma other_cache_set:
  "template_cache (\<not> pre) (set_template_cache pre f s) = template_cache (\<not> pre) s"
  by (cases pre) (simp_all add: template_cache_def set_template_cache_def)

lemma template_cache_getFile:
  "template_cache pre (snd (getFile fp options s)) = template_cache pre s"
  by (cases pre) (simp_all add: template_cache_def getFile_templates)

lemma grows_set_template_cache: "grows P s (set_template_cache pre f s)"
  by (simp add: grows_def set_template_cache_unchanged template_cache_simps)

lemma getTemplate_cases:
  obtains (hit) t where "opt_cache options"
      "map_of (template_cache (opt_precompiled options) s) (path_resolve (cwd s) [fp]) = Some t"
      "getTemplate fp options s = (Inr t, s)"
  | (miss) f where
      "opt_cache options \<longrightarrow>
         map_of (template_cache (opt_precompiled options) s) (path_resolve (cwd s) [fp]) = None"
      "snd (getTemplate fp options s) =
         set_template_cache (opt_precompiled options) f
           (snd (getFile (path_resolve (cwd s) [fp])
              \<lparr>opt_cache = opt_cache options,
               opt_encoding = str_or (opt_encoding options) (encoding s),
               opt_precompiled = False, opt_throwTestError = False\<rparr> s))"
proof (cases "opt_cache options \<longrightarrow>
      map_of (template_cache (opt_precompiled options) s) (path_resolve (cwd s) [fp]) = None")
  case False
  then obtain t where t: "opt_cache options"
    "map_of (template_cache (opt_precompiled options) s) (path_resolve (cwd s) [fp]) = Some t"
    by auto
  from t have "getTemplate fp options s = (Inr t, s)" by (rule getTemplate_hit)
  with t show ?thesis by (rule hit)
next
  case True
  define r where "r = getFile (path_resolve (cwd s) [fp])
            \<lparr>opt_cache = opt_cache options,
             opt_encoding = str_or (opt_encoding options) (encoding s),
             opt_precompiled = False, opt_throwTestError = False\<rparr> s"
  have "\<exists>f. snd (getTemplate fp options s) = set_template_cache (opt_precompiled options) f (snd r)"
    unfolding getTemplate_miss[OF True] r_def[symmetric]
    by (cases r) (auto split: sum.splits)
  then obtain f where "snd (getTemplate fp options s) =
      set_template_cache (opt_precompiled options) f (snd r)" ..
  then show ?thesis using True unfolding r_def by (rule miss[rotated])
qed

lemma getTemplate_grows: "grows is_fs_call s (snd (getTemplate fp options s))"
proof (cases rule: getTemplate_cases[of options s fp])
  case (hit t)
  then show ?thesis by (simp add: grows_refl)
next
  case (miss f)
  show ?thesis
    unfolding miss(2) by (rule grows_trans[OF getFile_grows grows_set_template_cache])
qed

lemma getTemplate_failure:
  assumes "fst (getTemplate fp options s) = Inl err"
  shows "map_of (template_cache (opt_precompiled options) (snd (getTemplate fp options s)))
           (path_resolve (cwd s) [fp]) = None"
proof -
  have miss: "opt_cache options \<longrightarrow>
      map_of (template_cache (opt_precompiled options) s) (path_resolve (cwd s) [fp]) = None"
  proof (rule ccontr)
    assume "\<not> ?thesis"
    then obtain t where "opt_cache options"
      "map_of (template_cache (opt_precompiled options) s) (path_resolve (cwd s) [fp]) = Some t"
      by auto
    then have "getTemplate fp options s = (Inr t, s)" by (rule getTemplate_hit)
    with assms show False by simp
  qed
  show ?thesis
    using assms unfolding getTemplate_miss[OF miss]
    by (auto simp: template_cache_simps delete_conv' split: prod.splits sum.splits)
qed

lemma getTemplate_other_cache:
  "template_cache (\<not> opt_precompiled options) (snd (getTemplate fp options s)) =
   template_cache (\<not> opt_precompiled options) s"
proof (cases rule: getTemplate_cases[of options s fp])
  case (hit t)
  then show ?thesis by simp
next
  case (miss f)
  show ?thesis
    unfolding miss(2) other_cache_set template_cache_getFile ..
qed

lemma getTemplate_uncached:
  assumes nc: "\<not> opt_cache options" and abs: "is_absolute (cwd s)"
    and p: "p = path_resolve (cwd s) [path]"
    and enc: "enc = or_utf8 (str_or (opt_encoding options) (encoding s))"
    and pre: "pre = opt_precompiled options"
  shows "getTemplate path options s =
    (case fs_readFile (fs s) p enc of
       Inl err \<Rightarrow>
         (Inl err,
          set_template_cache pre (AList.delete p)
            (s\<lparr>io := io s @ [ReadFile p enc], fsCache := AList.delete p (fsCache s)\<rparr>))
     | Inr text \<Rightarrow>
         (case compile_file pre s (FileContent text) of
            Inl err \<Rightarrow>
              (Inl err,
               set_template_cache pre (AList.delete p)
                 (s\<lparr>io := io s @ [ReadFile p enc],
                    fsCache := AList.update p (FileContent text) (fsCache s)\<rparr>))
          | Inr t \<Rightarrow>
              (Inr t,
               set_template_cache pre (AList.update p t)
                 (s\<lparr>io := io s @ [ReadFile p enc],
                    fsCache := AList.update p (FileContent text) (fsCache s)\<rparr>))))"
proof -
  have miss: "opt_cache options \<longrightarrow>
      map_of (template_cache (opt_precompiled options) s) (path_resolve (cwd s) [path]) = None"
    using nc by simp
  have gf: "getFile p
            \<lparr>opt_cache = opt_cache options,
             opt_encoding = str_or (opt_encoding options) (encoding s),
             opt_precompiled = False, opt_throwTestError = False\<rparr> s =
    (case fs_readFile (fs s) p enc of
       Inr text \<Rightarrow>
         (Inr (FileContent text),
          s\<lparr>io := io s @ [ReadFile p enc], fsCache := AList.update p (FileContent text) (fsCache s)\<rparr>)
     | Inl err \<Rightarrow>
         (Inl err, s\<lparr>io := io s @ [ReadFile p enc], fsCache := AList.delete p (fsCache s)\<rparr>))"
  proof -
    have pp: "path_resolve (cwd s) [p] = p"
      unfolding p by (rule path_resolve_idem[OF abs])
    have e: "or_utf8 (str_or (str_or (opt_encoding options) (encoding s)) (encoding s)) = enc"
      unfolding enc str_or_idem ..
    have "opt_cache \<lparr>opt_cache = opt_cache options,
             opt_encoding = str_or (opt_encoding options) (encoding s),
             opt_precompiled = False, opt_throwTestError = False\<rparr> \<longrightarrow>
          map_of (fsCache s) (path_resolve (cwd s) [p]) = None"
      using nc by simp
    from getFile_miss[OF this] show ?thesis
      by (simp add: pp e split: sum.splits)
  qed
  have cf: "compile_file pre (s\<lparr>io := a, fsCache := b\<rparr>) fl = compile_file pre s fl" for a b fl
    by (simp add: compile_file_def compileTemplate_def precompileTemplate_def split: fs_entry.splits)
  show ?thesis
    unfolding getTemplate_miss[OF miss] p[symmetric] pre[symmetric] gf
    by (simp add: cf split: sum.splits)
qed

lemma getFile_result:
  "fst (getFile fp options s) =
     (case (if opt_cache options then map_of (fsCache s) (path_resolve (cwd s) [fp]) else None) of
        Some fl \<Rightarrow> Inr fl
      | None \<Rightarrow>
          (case fs_readFile (fs s) (path_resolve (cwd s) [fp])
                  (or_utf8 (str_or (opt_encoding options) (encoding s))) of
             Inl err \<Rightarrow> Inl err
           | Inr text \<Rightarrow> Inr (FileContent text)))"
  by (auto simp: getFile_def Let_def split: option.splits sum.splits)

lemma getTemplate_result:
  "fst (getTemplate fp options s) =
    (case (if opt_cache options
           then map_of (template_cache (opt_precompiled options) s) (path_resolve (cwd s) [fp])
           else None) of
       Some t \<Rightarrow> Inr t
     | None \<Rightarrow>
        (case fst (getFile (path_resolve (cwd s) [fp])
                 \<lparr>opt_cache = opt_cache options,
                  opt_encoding = str_or (opt_encoding options) (encoding s),
                  opt_precompiled = False, opt_throwTestError = False\<rparr> s) of
           Inl err \<Rightarrow> Inl err
         | Inr fl \<Rightarrow> compile_file (opt_precompiled options) s fl))"
proof (cases rule: getTemplate_cases[of options s fp])
  case (hit t)
  then show ?thesis by simp
next
  case (miss f)
  have cf: "compile_file pre s1 fl = compile_file pre s fl"
    if "unchanged s s1" for pre fl and s1 :: "'a next_handlebars"
    using that
    by (simp add: compile_file_def compileTemplate_def precompileTemplate_def unchanged_def
        split: fs_entry.splits)
  define r where "r = getFile (path_resolve (cwd s) [fp])
                 \<lparr>opt_cache = opt_cache options,
                  opt_encoding = str_or (opt_encoding options) (encoding s),
                  opt_precompiled = False, opt_throwTestError = False\<rparr> s"
  have u: "unchanged s (snd r)"
    unfolding r_def by (rule grows_unchanged[OF getFile_grows])
  have "fst (getTemplate fp options s) =
      (case fst r of Inl err \<Rightarrow> Inl err | Inr fl \<Rightarrow> compile_file (opt_precompiled options) s fl)"
    unfolding getTemplate_miss[OF miss(1)] r_def[symmetric]
    using cf[OF u] by (cases r) (auto split: sum.splits)
  then show ?thesis
    using miss(1) unfolding r_def by (auto split: option.splits)
qed

section \<open>Calls that do not use the cache\<close>

text \<open>
  C1, as stated: a call of \<open>_getFile\<close>, \<open>_getDir\<close> or \<open>getTemplate\<close> whose \<open>cache\<close>
  option is false or absent leaves the file-system cache and the template caches with
  the entries they had. This fails: on an instance with empty caches each of the three
  calls leaves an entry behind.
\<close>

theorem uncached_call_counterexample:
  "\<not> opt_cache no_cache
   \<and> fsCache (snd (getFile ''/app/views/home.handlebars'' no_cache demo)) \<noteq> fsCache demo
   \<and> fsCache (snd (getDir ''/app/views/partials'' no_cache demo)) \<noteq> fsCache demo
   \<and> compiled (snd (getTemplate ''/app/views/home.handlebars'' no_cache demo)) \<noteq> compiled demo"
  by code_simp

text \<open>
  C1, amended. With the \<open>cache\<close> option false or absent the three functions never look into
  their cache: \<open>_getFile\<close> and \<open>getTemplate\<close> issue one read of the resolved path,
  \<open>_getDir\<close> one listing, and what is returned is what was read, listed or compiled
  from the text just read. The result is stored nevertheless: the slot of the resolved
  path takes the new result, whatever it held before, and is left empty when the
  operation fails; all other slots, and the template cache that was not asked for,
  keep their entries.
\<close>

theorem uncached_call_reads_afresh_and_stores:
  assumes nc: "\<not> opt_cache options" and abs: "is_absolute (cwd s)"
    and p: "p = path_resolve (cwd s) [path]"
    and enc: "enc = or_utf8 (str_or (opt_encoding options) (encoding s))"
    and pre: "pre = opt_precompiled options"
    and pat: "pattern = ''**/*'' @ extname s"
  shows
    "io (snd (getFile path options s)) = io s @ [ReadFile p enc]
     \<and> fst (getFile path options s) =
         (case fs_readFile (fs s) p enc of Inl err \<Rightarrow> Inl err | Inr text \<Rightarrow> Inr (FileContent text))
     \<and> map_of (fsCache (snd (getFile path options s))) =
         (case fs_readFile (fs s) p enc of
            Inl err \<Rightarrow> (map_of (fsCache s))(p := None)
          | Inr text \<Rightarrow> (map_of (fsCache s))(p \<mapsto> FileContent text))
     \<and> io (snd (getDir path options s)) = io s @ [Glob pattern p]
     \<and> fst (getDir path options s) =
         (if opt_throwTestError options then Inl (Error ''test'') else fs_glob (fs s) pattern p)
     \<and> map_of (fsCache (snd (getDir path options s))) =
         (case fst (getDir path options s) of
            Inl err \<Rightarrow> (map_of (fsCache s))(p := None)
          | Inr files \<Rightarrow> (map_of (fsCache s))(p \<mapsto> DirListing files))
     \<and> io (snd (getTemplate path options s)) = io s @ [ReadFile p enc]
     \<and> fst (getTemplate path options s) =
         (case fs_readFile (fs s) p enc of
            Inl err \<Rightarrow> Inl err
          | Inr text \<Rightarrow>
              (if pre then hb_precompile (handlebars s) (js_trim text) (compilerOptions s)
               else hb_compile (handlebars s) (js_trim text) (compilerOptions s)))
     \<and> map_of (template_cache pre (snd (getTemplate path options s))) =
         (case fst (getTemplate path options s) of
            Inl err \<Rightarrow> (map_of (template_cache pre s))(p := None)
          | Inr t \<Rightarrow> (map_of (template_cache pre s))(p \<mapsto> t))
     \<and> template_cache (\<not> pre) (snd (getTemplate path options s)) = template_cache (\<not> pre) s
     \<and> map_of (fsCache (snd (getTemplate path options s))) =
         (case fs_readFile (fs s) p enc of
            Inl err \<Rightarrow> (map_of (fsCache s))(p := None)
          | Inr text \<Rightarrow> (map_of (fsCache s))(p \<mapsto> FileContent text))"
proof -
  have missf: "opt_cache options \<longrightarrow> map_of (fsCache s) (path_resolve (cwd s) [path]) = None"
    using nc by simp
  note gf = getFile_miss[OF missf, folded p enc]
  note gd = getDir_miss[OF missf, folded p pat]
  note gt = getTemplate_uncached[OF nc abs p enc pre]
  have f1: "io (snd (getFile path options s)) = io s @ [ReadFile p enc]"
    unfolding gf by (simp split: sum.splits)
  have f2: "fst (getFile path options s) =
         (case fs_readFile (fs s) p enc of Inl err \<Rightarrow> Inl err | Inr text \<Rightarrow> Inr (FileContent text))"
    unfolding gf by (simp split: sum.splits)
  have f3: "map_of (fsCache (snd (getFile path options s))) =
         (case fs_readFile (fs s) p enc of
            Inl err \<Rightarrow> (map_of (fsCache s))(p := None)
          | Inr text \<Rightarrow> (map_of (fsCache s))(p \<mapsto> FileContent text))"
    unfolding gf by (simp add: update_conv' delete_conv' split: sum.splits)
  have d1: "io (snd (getDir path options s)) = io s @ [Glob pattern p]"
    unfolding gd by (simp split: sum.splits)
  have d2: "fst (getDir path options s) =
         (if opt_throwTestError options then Inl (Error ''test'') else fs_glob (fs s) pattern p)"
    unfolding gd by (simp split: sum.splits)
  have d3: "map_of (fsCache (snd (getDir path options s))) =
         (case fst (getDir path options s) of
            Inl err \<Rightarrow> (map_of (fsCache s))(p := None)
          | Inr files \<Rightarrow> (map_of (fsCache s))(p \<mapsto> DirListing files))"
    unfolding gd by (simp add: update_conv' delete_conv' split: sum.splits)
  have t1: "io (snd (getTemplate path options s)) = io s @ [ReadFile p enc]"
    unfolding gt by (simp add: template_cache_simps split: sum.splits)
  have t2: "fst (getTemplate path options s) =
         (case fs_readFile (fs s) p enc of
            Inl err \<Rightarrow> Inl err
          | Inr text \<Rightarrow>
              (if pre then hb_precompile (handlebars s) (js_trim text) (compilerOptions s)
               else hb_compile (handlebars s) (js_trim text) (compilerOptions s)))"
    unfolding gt
    by (simp add: compile_file_def compileTemplate_def precompileTemplate_def split: sum.splits)
  have t3: "map_of (template_cache pre (snd (getTemplate path options s))) =
         (case fst (getTemplate path options s) of
            Inl err \<Rightarrow> (map_of (template_cache pre s))(p := None)
          | Inr t \<Rightarrow> (map_of (template_cache pre s))(p \<mapsto> t))"
    unfolding gt
    by (simp add: template_cache_simps update_conv' delete_conv' split: sum.splits)
  have t4: "template_cache (\<not> pre) (snd (getTemplate path options s)) = template_cache (\<not> pre) s"
    unfolding pre by (rule getTemplate_other_cache)
  have t5: "map_of (fsCache (snd (getTemplate path options s))) =
         (case fs_readFile (fs s) p enc of
            Inl err \<Rightarrow> (map_of (fsCache s))(p := None)
          | Inr text \<Rightarrow> (map_of (fsCache s))(p \<mapsto> FileContent text))"
    unfolding gt
    by (simp add: template_cache_simps update_conv' delete_conv' split: sum.splits)
  from f1 f2 f3 d1 d2 d3 t1 t2 t3 t4 t5 show ?thesis by simp
qed

theorem uncached_call_reads_afresh_and_stores_witness:
  "\<not> opt_cache no_cache \<and> is_absolute (cwd warm)
   \<and> map_of (fsCache warm) ''/app/views/home.handlebars'' = Some (FileContent ''<p>old</p>'')
   \<and> fst (getFile ''views/home.handlebars'' no_cache warm) = Inr (FileContent ''  <p>{{title}}</p>  '')
   \<and> map_of (fsCache (snd (getFile ''views/home.handlebars'' no_cache warm)))
         ''/app/views/home.handlebars'' = Some (FileContent ''  <p>{{title}}</p>  '')
   \<and> io (snd (getDir ''views/partials'' no_cache warm)) =
         [Glob ''**/*.handlebars'' ''/app/views/partials'']
   \<and> map_of (fsCache (snd (getDir ''views/partials'' no_cache warm))) ''/app/views/partials'' =
         Some (DirListing [''card.handlebars''])
   \<and> io (snd (getTemplate ''views/home.handlebars'' no_cache warm)) =
         [ReadFile ''/app/views/home.handlebars'' ''utf8'']
   \<and> fst (getTemplate ''views/home.handlebars'' no_cache warm) = Inr ''<p>{{title}}</p>''
   \<and> map_of (compiled (snd (getTemplate ''views/home.handlebars'' no_cache warm)))
         ''/app/views/home.handlebars'' = Some ''<p>{{title}}</p>''
   \<and> precompiled (snd (getTemplate ''views/home.handlebars'' no_cache warm)) = precompiled warm"
proof -
  have a: "\<not> opt_cache no_cache" by (simp add: no_cache_def)
  have b: "is_absolute (cwd warm)" by code_simp
  have c: "''/app/views/home.handlebars'' = path_resolve (cwd warm) [''views/home.handlebars'']"
    by code_simp
  have d: "''utf8'' = or_utf8 (str_or (opt_encoding no_cache) (encoding warm))" by code_simp
  have e: "False = opt_precompiled no_cache" by (simp add: no_cache_def)
  have f: "''**/*.handlebars'' = ''**/*'' @ extname warm" by code_simp
  have c': "''/app/views/partials'' = path_resolve (cwd warm) [''views/partials'']" by code_simp
  have r: "fs_readFile (fs warm) ''/app/views/home.handlebars'' ''utf8'' = Inr ''  <p>{{title}}</p>  ''"
    by code_simp
  have g: "fs_glob (fs warm) ''**/*.handlebars'' ''/app/views/partials'' = Inr [''card.handlebars'']"
    by code_simp
  have t: "js_trim ''  <p>{{title}}</p>  '' = ''<p>{{title}}</p>''" by code_simp
  have h: "hb_compile (handlebars warm) ''<p>{{title}}</p>'' (compilerOptions warm) = Inr ''<p>{{title}}</p>''"
    by code_simp
  have m: "map_of (fsCache warm) ''/app/views/home.handlebars'' = Some (FileContent ''<p>old</p>'')"
    "io warm = []" "opt_throwTestError no_cache = False"
    by code_simp+
  show ?thesis
    using uncached_call_reads_afresh_and_stores[OF a b c d e f]
      uncached_call_reads_afresh_and_stores[OF a b c' d e f]
    by (simp add: a b r g t h m template_cache_def)
qed

section \<open>Failures\<close>

lemma getFile_fs_miss_reads:
  assumes "map_of (fsCache s) (path_resolve (cwd s) [fp]) = None"
  shows "io (snd (getFile fp options s)) =
     io s @ [ReadFile (path_resolve (cwd s) [fp])
               (or_utf8 (str_or (opt_encoding options) (encoding s)))]"
proof -
  have "opt_cache options \<longrightarrow> map_of (fsCache s) (path_resolve (cwd s) [fp]) = None"
    using assms by simp
  from getFile_miss[OF this] show ?thesis by (simp split: sum.splits)
qed

lemma getDir_fs_miss_lists:
  assumes "map_of (fsCache s) (path_resolve (cwd s) [dp]) = None"
  shows "io (snd (getDir dp options s)) =
     io s @ [Glob (''**/*'' @ extname s) (path_resolve (cwd s) [dp])]"
proof -
  have "opt_cache options \<longrightarrow> map_of (fsCache s) (path_resolve (cwd s) [dp]) = None"
    using assms by simp
  from getDir_miss[OF this] show ?thesis by (simp split: sum.splits)
qed

lemma getFile_failure:
  assumes "fst (getFile fp options s) = Inl err"
  shows "map_of (fsCache (snd (getFile fp options s))) (path_resolve (cwd s) [fp]) = None"
  using assms
  by (auto simp: getFile_def Let_def delete_conv' split: option.splits sum.splits if_splits)

lemma getDir_failure:
  assumes "fst (getDir dp options s) = Inl err"
  shows "map_of (fsCache (snd (getDir dp options s))) (path_resolve (cwd s) [dp]) = None"
  using assms
  by (auto simp: getDir_def Let_def delete_conv' split: option.splits sum.splits if_splits)

lemma getTemplate_miss_result:
  assumes "map_of (template_cache (opt_precompiled options) s) (path_resolve (cwd s) [fp]) = None"
  shows "fst (getTemplate fp options s) =
    (case fst (getFile (path_resolve (cwd s) [fp])
                 \<lparr>opt_cache = opt_cache options,
                  opt_encoding = str_or (opt_encoding options) (encoding s),
                  opt_precompiled = False, opt_throwTestError = False\<rparr> s) of
       Inl err \<Rightarrow> Inl err
     | Inr fl \<Rightarrow> compile_file (opt_precompiled options) s fl)"
proof -
  have cf: "compile_file pre s1 fl = compile_file pre s fl"
    if "unchanged s s1" for pre fl and s1 :: "'a next_handlebars"
    using that
    by (simp add: compile_file_def compileTemplate_def precompileTemplate_def unchanged_def
        split: fs_entry.splits)
  have miss: "opt_cache options \<longrightarrow>
      map_of (template_cache (opt_precompiled options) s) (path_resolve (cwd s) [fp]) = None"
    using assms by simp
  define r where "r = getFile (path_resolve (cwd s) [fp])
                 \<lparr>opt_cache = opt_cache options,
                  opt_encoding = str_or (opt_encoding options) (encoding s),
                  opt_precompiled = False, opt_throwTestError = False\<rparr> s"
  have u: "unchanged s (snd r)"
    unfolding r_def by (rule grows_unchanged[OF getFile_grows])
  show ?thesis
    unfolding getTemplate_miss[OF miss] r_def[symmetric]
    using cf[OF u] by (cases r) (auto split: sum.splits)
qed

text \<open>
  A failure that \<open>_getFile\<close>, \<open>_getDir\<close> or \<open>getTemplate\<close> reports itself: the call
  hands the error on with the slot of that path empty in its cache, whatever the slot
  held before, and a later call for the same path starts over.
\<close>

lemma reported_failure_leaves_no_entry:
  assumes p: "p = path_resolve (cwd s) [path]"
  shows
    "(fst (getFile path options s) = Inl err \<longrightarrow>
        map_of (fsCache (snd (getFile path options s))) p = None
        \<and> io (snd (getFile path later (snd (getFile path options s)))) =
            io (snd (getFile path options s)) @
              [ReadFile p (or_utf8 (str_or (opt_encoding later) (encoding s)))])
     \<and> (fst (getDir path options s) = Inl err \<longrightarrow>
        map_of (fsCache (snd (getDir path options s))) p = None
        \<and> io (snd (getDir path later (snd (getDir path options s)))) =
            io (snd (getDir path options s)) @ [Glob (''**/*'' @ extname s) p])
     \<and> (fst (getTemplate path options s) = Inl err \<longrightarrow>
        map_of (template_cache (opt_precompiled options) (snd (getTemplate path options s))) p = None
        \<and> (opt_precompiled later = opt_precompiled options \<longrightarrow>
            fst (getTemplate path later (snd (getTemplate path options s))) =
              (case fst (getFile p
                           \<lparr>opt_cache = opt_cache later,
                            opt_encoding = str_or (opt_encoding later) (encoding s),
                            opt_precompiled = False, opt_throwTestError = False\<rparr>
                           (snd (getTemplate path options s))) of
                 Inl e \<Rightarrow> Inl e
               | Inr fl \<Rightarrow> compile_file (opt_precompiled options) s fl)))"
proof -
  have fil: "map_of (fsCache (snd (getFile path options s))) p = None
        \<and> io (snd (getFile path later (snd (getFile path options s)))) =
            io (snd (getFile path options s)) @
              [ReadFile p (or_utf8 (str_or (opt_encoding later) (encoding s)))]"
    if f: "fst (getFile path options s) = Inl err"
  proof -
    define s' where "s' = snd (getFile path options s)"
    have u: "unchanged s s'" unfolding s'_def by (rule grows_unchanged[OF getFile_grows])
    then have eq: "cwd s' = cwd s" "encoding s' = encoding s" by (simp_all add: unchanged_def)
    have none: "map_of (fsCache s') p = None"
      unfolding s'_def p by (rule getFile_failure[OF f])
    then have "map_of (fsCache s') (path_resolve (cwd s') [path]) = None"
      by (simp add: eq p)
    from getFile_fs_miss_reads[OF this, of later] none show ?thesis
      unfolding s'_def[symmetric] by (simp add: eq p)
  qed
  have dir: "map_of (fsCache (snd (getDir path options s))) p = None
        \<and> io (snd (getDir path later (snd (getDir path options s)))) =
            io (snd (getDir path options s)) @ [Glob (''**/*'' @ extname s) p]"
    if f: "fst (getDir path options s) = Inl err"
  proof -
    define s' where "s' = snd (getDir path options s)"
    have u: "unchanged s s'" unfolding s'_def by (rule grows_unchanged[OF getDir_grows])
    then have eq: "cwd s' = cwd s" "extname s' = extname s" by (simp_all add: unchanged_def)
    have none: "map_of (fsCache s') p = None"
      unfolding s'_def p by (rule getDir_failure[OF f])
    then have "map_of (fsCache s') (path_resolve (cwd s') [path]) = None"
      by (simp add: eq p)
    from getDir_fs_miss_lists[OF this, of later] none show ?thesis
      unfolding s'_def[symmetric] by (simp add: eq p)
  qed
  have tmpl: "map_of (template_cache (opt_precompiled options) (snd (getTemplate path options s))) p = None
        \<and> (opt_precompiled later = opt_precompiled options \<longrightarrow>
            fst (getTemplate path later (snd (getTemplate path options s))) =
              (case fst (getFile p
                           \<lparr>opt_cache = opt_cache later,
                            opt_encoding = str_or (opt_encoding later) (encoding s),
                            opt_precompiled = False, opt_throwTestError = False\<rparr>
                           (snd (getTemplate path options s))) of
                 Inl e \<Rightarrow> Inl e
               | Inr fl \<Rightarrow> compile_file (opt_precompiled options) s fl))"
    if f: "fst (getTemplate path options s) = Inl err"
  proof -
    define s' where "s' = snd (getTemplate path options s)"
    have u: "unchanged s s'" unfolding s'_def by (rule grows_unchanged[OF getTemplate_grows])
    then have eq: "cwd s' = cwd s" "encoding s' = encoding s" by (simp_all add: unchanged_def)
    have cf: "compile_file pre s' fl = compile_file pre s fl" for pre fl
      using u
      by (simp add: compile_file_def compileTemplate_def precompileTemplate_def unchanged_def
          split: fs_entry.splits)
    have none: "map_of (template_cache (opt_precompiled options) s') p = None"
      unfolding s'_def p by (rule getTemplate_failure[OF f])
    have "fst (getTemplate path later s') =
              (case fst (getFile p
                           \<lparr>opt_cache = opt_cache later,
                            opt_encoding = str_or (opt_encoding later) (encoding s),
                            opt_precompiled = False, opt_throwTestError = False\<rparr> s') of
                 Inl e \<Rightarrow> Inl e
               | Inr fl \<Rightarrow> compile_file (opt_precompiled options) s fl)"
      if same: "opt_precompiled later = opt_precompiled options"
    proof -
      have "map_of (template_cache (opt_precompiled later) s') (path_resolve (cwd s') [path]) = None"
        using none by (simp add: same eq p)
      from getTemplate_miss_result[OF this] show ?thesis
        by (simp add: eq p same cf split: sum.splits)
    qed
    with none show ?thesis unfolding s'_def[symmetric] by simp
  qed
  from fil dir tmpl show ?thesis by blast
qed

text \<open>
  C5. The claim is that a path whose read, listing or compilation fails keeps no entry
  in the cache, so that a later call for it tries again. For a compilation this is not
  what happens with the engine's own \<open>compile\<close>: the error of a malformed template
  appears only when \<open>render\<close> invokes it. By then \<open>getTemplate\<close> has succeeded and has
  stored the template, and \<open>render\<close> removes nothing. The entry stays, a later render
  with the cache enabled fails in the same way without reading the file, and it still
  does so after the file has been repaired; only a render without the cache reads the
  repaired text.
\<close>

theorem compile_error_stays_cached:
  "fst (getTemplate ''views/broken.handlebars'' use_cache demo) = Inr ''<p>{{title</p>''
   \<and> fst (render ''views/broken.handlebars'' title_context cache_options demo) =
         Inl (HandlebarsError ''Parse error'')
   \<and> io after_broken_render =
         [Render ''views/broken.handlebars'', ReadFile ''/app/views/broken.handlebars'' ''utf8'']
   \<and> map_of (compiled after_broken_render) ''/app/views/broken.handlebars'' = Some ''<p>{{title</p>''
   \<and> fst (render ''views/broken.handlebars'' title_context cache_options after_broken_render) =
         Inl (HandlebarsError ''Parse error'')
   \<and> io (snd (render ''views/broken.handlebars'' title_context cache_options after_broken_render)) =
         io after_broken_render @ [Render ''views/broken.handlebars'']
   \<and> fst (render ''views/broken.handlebars'' title_context cache_options repaired) =
         Inl (HandlebarsError ''Parse error'')
   \<and> io (snd (render ''views/broken.handlebars'' title_context cache_options repaired)) =
         io repaired @ [Render ''views/broken.handlebars'']
   \<and> fst (render ''views/broken.handlebars'' title_context [] repaired) = Inr ''<p>Hi</p>''"
  by code_simp

section \<open>Loading directories\<close>

lemma load_all_grows: "grows is_fs_call s (snd (load_all dirPath fps options s))"
proof (induction fps arbitrary: s)
  case Nil
  show ?case by (simp add: grows_refl)
next
  case (Cons fp fps)
  have "grows is_fs_call s (snd (getTemplate (path_join [dirPath, fp]) options s))"
    by (rule getTemplate_grows)
  from grows_trans[OF this Cons.IH] show ?case
    by (auto split: prod.splits)
qed

lemma load_templates_grows: "grows is_fs_call s (snd (load_templates dirPath fps options s))"
  using load_all_grows[of s dirPath fps options]
  by (auto simp: load_templates_def split: prod.splits sum.splits)

lemma is_glob_fs_call: "is_glob e \<Longrightarrow> is_fs_call e"
  by (cases e) simp_all

lemma is_fs_call_not_render: "is_fs_call e \<Longrightarrow> \<not> is_render e"
  by (cases e) simp_all

lemma getTemplates_grows: "grows is_fs_call s (snd (getTemplates dirPath options s))"
proof -
  define r where "r = getDir dirPath
             \<lparr>opt_cache = opt_cache options, opt_encoding = None,
              opt_precompiled = False, opt_throwTestError = False\<rparr> s"
  have g: "grows is_fs_call s (snd r)"
    unfolding r_def by (rule grows_mono[OF getDir_grows is_glob_fs_call])
  show ?thesis
    unfolding getTemplates_def r_def[symmetric]
    using g grows_trans[OF g load_templates_grows]
    by (cases r) (auto split: sum.splits)
qed

lemma start_dir_grows: "grows start_event s (snd (start_dir d options s))"
proof -
  have g: "grows start_event s (snd (getDir p o' s))" for p o'
    by (rule grows_mono[OF getDir_grows]) (simp add: start_event_def)
  have t: "grows start_event s (s\<lparr>io := io s @ [Thrown config_error]\<rparr>)"
    by (simp add: grows_def unchanged_def start_event_def)
  have g': "grows start_event s s1" if "getDir p o' s = (r, s1)" for p o' r s1
    using g[of p o'] that by simp
  show ?thesis
    unfolding start_dir_def
    using g' t by (auto split: partials_dir.splits option.splits prod.splits intro: grows_refl)
qed

lemma start_all_grows: "grows start_event s (snd (start_all ds options s))"
proof (induction ds arbitrary: s)
  case Nil
  show ?case by (simp add: grows_refl)
next
  case (Cons d ds)
  from grows_trans[OF start_dir_grows[of s d options] Cons.IH] show ?case
    by (auto split: prod.splits)
qed

lemma finish_dir_grows: "grows is_fs_call s (snd (finish_dir d options s))"
proof (cases "(d, options, s)" rule: finish_dir.cases)
  case (4 dirPath filePaths ns rn options' s')
  then show ?thesis
    using load_templates_grows[of s dirPath filePaths options]
    by (auto split: prod.splits sum.splits)
qed (simp_all add: grows_refl)

lemma finish_all_grows: "grows is_fs_call s (snd (finish_all ds options s))"
proof (induction ds arbitrary: s)
  case Nil
  show ?case by (simp add: grows_refl)
next
  case (Cons d ds)
  from grows_trans[OF finish_dir_grows[of s d options] Cons.IH] show ?case
    by (auto split: prod.splits)
qed

lemma start_event_not_render: "start_event e \<Longrightarrow> \<not> is_render e"
  by (cases e) (simp_all add: start_event_def)

lemma getPartials_grows: "grows (\<lambda>e. \<not> is_render e) s (snd (getPartials options s))"
proof (cases "partialsDir s")
  case None
  then show ?thesis by (simp add: getPartials_def grows_refl)
next
  case (Some spec)
  define ds where "ds = (case spec of One d \<Rightarrow> [d] | Many ds \<Rightarrow> ds)"
  define s1 where "s1 = snd (start_all ds options s)"
  define s2 where "s2 = snd (finish_all (fst (start_all ds options s)) options s1)"
  have g1: "grows (\<lambda>e. \<not> is_render e) s s1"
    unfolding s1_def by (rule grows_mono[OF start_all_grows start_event_not_render])
  have g2: "grows (\<lambda>e. \<not> is_render e) s1 s2"
    unfolding s2_def by (rule grows_mono[OF finish_all_grows is_fs_call_not_render])
  have "snd (getPartials options s) = s2"
    unfolding getPartials_def Some s2_def s1_def ds_def
    by (simp add: Let_def split: prod.splits sum.splits)
  then show ?thesis using grows_trans[OF g1 g2] by simp
qed

section \<open>Partials\<close>

lemma start_all_append:
  "start_all (xs @ ys) options s =
     (case start_all xs options s of
        (rs, s1) \<Rightarrow> (case start_all ys options s1 of (rs', s2) \<Rightarrow> (rs @ rs', s2)))"
  by (induction xs arbitrary: s) (auto split: prod.splits)

lemma start_dir_invalid:
  "no_path_no_templates d \<Longrightarrow>
   \<exists>ns rn. start_dir d options s = ((Invalid, ns, rn), s\<lparr>io := io s @ [Thrown config_error]\<rparr>)"
  by (cases d) (auto simp: start_dir_def str_truthy_def)

lemma start_dir_valid:
  "\<not> no_path_no_templates d \<Longrightarrow>
   grows is_glob s (snd (start_dir d options s)) \<and> \<not> is_invalid (fst (start_dir d options s))"
proof -
  assume v: "\<not> no_path_no_templates d"
  have g: "grows is_glob s s1" if "getDir p o' s = (r, s1)" for p o' r s1
    using getDir_grows[of s p o'] that by simp
  show ?thesis
    using v g unfolding start_dir_def
    by (cases d)
       (auto simp: str_truthy_def split: option.splits prod.splits intro: grows_refl)
qed

lemma start_all_valid:
  "list_all (\<lambda>d. \<not> no_path_no_templates d) ds \<Longrightarrow>
   grows is_glob s (snd (start_all ds options s)) \<and>
   \<not> list_ex is_invalid (fst (start_all ds options s))"
proof (induction ds arbitrary: s)
  case Nil
  show ?case by (simp add: grows_refl)
next
  case (Cons d ds)
  then have d: "\<not> no_path_no_templates d"
    and ds: "list_all (\<lambda>d. \<not> no_path_no_templates d) ds" by simp_all
  from start_dir_valid[OF d, of s options] Cons.IH[OF ds, of "snd (start_dir d options s)"]
  show ?case
    by (auto split: prod.splits intro: grows_trans)
qed

lemma start_all_results_invalid:
  "list_ex is_invalid (fst (start_all ds options s)) = list_ex no_path_no_templates ds"
proof (induction ds arbitrary: s)
  case Nil
  show ?case by simp
next
  case (Cons d ds)
  show ?case
  proof (cases "no_path_no_templates d")
    case True
    from start_dir_invalid[OF True, of options s] True
      Cons.IH[of "snd (start_dir d options s)"] show ?thesis
      by (auto split: prod.splits)
  next
    case False
    from start_dir_valid[OF False, of s options] False
      Cons.IH[of "snd (start_dir d options s)"] show ?thesis
      by (auto split: prod.splits)
  qed
qed

lemma split_first_invalid:
  assumes "list_ex no_path_no_templates ds"
  shows "\<exists>bad post. ds = takeWhile (\<lambda>d. \<not> no_path_no_templates d) ds @ bad # post
      \<and> no_path_no_templates bad"
proof -
  define pre where "pre = takeWhile (\<lambda>d. \<not> no_path_no_templates d) ds"
  define rest where "rest = dropWhile (\<lambda>d. \<not> no_path_no_templates d) ds"
  have "rest \<noteq> []"
    using assms unfolding rest_def by (auto simp: list_ex_iff)
  then obtain bad post where r: "rest = bad # post" by (cases rest) auto
  have "no_path_no_templates bad"
    using hd_dropWhile[of "\<lambda>d. \<not> no_path_no_templates d" ds] r unfolding rest_def by auto
  moreover have "ds = pre @ rest" unfolding pre_def rest_def by simp
  ultimately show ?thesis using r unfolding pre_def by auto
qed

lemma getPartials_some:
  assumes "partialsDir s = Some spec"
  shows "getPartials options s =
    (case start_all (dirs_of spec) options s of
       (starts, s1) \<Rightarrow>
         (case finish_all starts options s1 of
            (dirs, s2) \<Rightarrow>
              (if list_ex is_invalid starts then (Inl config_error, s2)
               else
                 (case promise_all dirs of
                    Inl err \<Rightarrow> (Inl err, s2)
                  | Inr dirs' \<Rightarrow> (Inr (foldl (add_templates (extname s2)) [] dirs'), s2)))))"
  using assms by (simp add: getPartials_def dirs_of_def Let_def)

text \<open>
  C2, as stated: when some descriptor gives neither a path nor templates, \<open>getPartials\<close>
  fails with the configuration error, and the error is raised before any file-system
  call is issued for any descriptor. The second half fails: with a path first and an
  empty descriptor second, the listing of the first directory is issued before the
  second descriptor is looked at and the error is thrown.
\<close>

theorem invalid_descriptor_counterexample:
  "fst (getPartials no_cache two_dirs) = Inl (Error ''A partials dir must be a string or config object'')
   \<and> io (snd (getPartials no_cache two_dirs)) =
       [Glob ''**/*.handlebars'' ''/app/views/partials'',
        Thrown (Error ''A partials dir must be a string or config object''),
        ReadFile ''/app/views/partials/card.handlebars'' ''utf8'']"
  by code_simp

text \<open>
  C2, amended. When some descriptor gives neither a path nor templates, \<open>getPartials\<close>
  fails with the error \<open>A partials dir must be a string or config object\<close>. The error
  is thrown while the descriptors are started in their order, without waiting for the
  file system: what has been issued before the throw are the directory listings of the
  descriptors that precede the first offending one, and nothing else; no file has been
  read by then.
\<close>

theorem invalid_descriptor_rejected:
  assumes dir: "partialsDir s = Some spec"
    and bad: "list_ex no_path_no_templates (dirs_of spec)"
  shows "fst (getPartials options s) = Inl (Error ''A partials dir must be a string or config object'')
     \<and> (\<exists>globs rest.
          io (snd (start_all (takeWhile (\<lambda>d. \<not> no_path_no_templates d) (dirs_of spec)) options s)) =
            io s @ globs
          \<and> list_all is_glob globs
          \<and> io (snd (getPartials options s)) = io s @ globs @ Thrown config_error # rest)"
proof -
  define pre where "pre = takeWhile (\<lambda>d. \<not> no_path_no_templates d) (dirs_of spec)"
  from split_first_invalid[OF bad] obtain b post
    where ds: "dirs_of spec = pre @ b # post" and b: "no_path_no_templates b"
    unfolding pre_def by blast
  define s1 where "s1 = snd (start_all pre options s)"
  define s1' where "s1' = s1\<lparr>io := io s1 @ [Thrown config_error]\<rparr>"
  define s2 where "s2 = snd (start_all post options s1')"
  define starts where "starts = fst (start_all (dirs_of spec) options s)"
  define s3 where "s3 = snd (finish_all starts options s2)"
  have "list_all (\<lambda>d. \<not> no_path_no_templates d) pre"
    unfolding pre_def list_all_iff by (auto dest: set_takeWhileD)
  from start_all_valid[OF this, of s options]
  obtain globs where g: "io s1 = io s @ globs" "list_all is_glob globs"
    unfolding s1_def grows_def by blast
  from start_dir_invalid[OF b, of options s1]
  obtain ns rn where sb: "start_dir b options s1 = ((Invalid, ns, rn), s1')"
    unfolding s1'_def by blast
  have st: "snd (start_all (dirs_of spec) options s) = s2"
    unfolding ds start_all_append s2_def s1_def
    using sb[unfolded s1_def] by (auto split: prod.splits)
  from start_all_grows[of s1' post options]
  obtain evs where e1: "io s2 = io s1' @ evs"
    unfolding s2_def grows_def by blast
  from finish_all_grows[of s2 starts options]
  obtain evs' where e2: "io s3 = io s2 @ evs'"
    unfolding s3_def grows_def by blast
  have inv: "list_ex is_invalid starts"
    unfolding starts_def start_all_results_invalid by (rule bad)
  have gp: "getPartials options s = (Inl config_error, s3)"
    unfolding getPartials_some[OF dir] s3_def
    using inv st unfolding starts_def by (auto split: prod.splits)
  have "io s3 = io s @ globs @ Thrown config_error # (evs @ evs')"
    unfolding e2 e1 s1'_def using g by simp
  with gp g show ?thesis
    unfolding s1_def pre_def by (auto simp: config_error_def)
qed

theorem invalid_descriptor_rejected_witness:
  "partialsDir two_dirs =
     Some (Many [DirPath ''/app/views/partials'', DirConfig None None (Some ''x'') None])
   \<and> no_path_no_templates (DirConfig None None (Some ''x'') None :: string partials_dir)
   \<and> fst (getPartials no_cache two_dirs) =
       Inl (Error ''A partials dir must be a string or config object'')"
proof -
  have a: "partialsDir two_dirs =
     Some (Many [DirPath ''/app/views/partials'', DirConfig None None (Some ''x'') None])"
    by (simp add: two_dirs_def)
  have b: "list_ex no_path_no_templates
     (dirs_of (Many [DirPath ''/app/views/partials'', DirConfig None None (Some ''x'') None
                     :: string partials_dir]))"
    by (simp add: dirs_of_def str_truthy_def)
  from invalid_descriptor_rejected[OF a b, of no_cache] a show ?thesis
    by (simp add: str_truthy_def)
qed

section \<open>Merging the partials\<close>

lemma map_of_foldl_update:
  "map_of (foldl (\<lambda>ps k. AList.update (f k) (g k) ps) acc ks) =
   map_of (rev (map (\<lambda>k. (f k, g k)) ks) @ acc)"
proof (induction ks arbitrary: acc)
  case Nil
  show ?case by simp
next
  case (Cons k ks)
  show ?case
    by (rule ext) (simp add: Cons.IH update_conv' map_add_def split: option.splits)
qed











lemma start_dir_unfold:
  "start_dir d options s =
     (if no_path_no_templates d
      then ((Invalid, dir_namespace d, dir_rename d), s\<lparr>io := io s @ [Thrown config_error]\<rparr>)
      else
        (case dir_templates d of
           Some t \<Rightarrow> ((Supplied t, dir_namespace d, dir_rename d), s)
         | None \<Rightarrow>
             (case dir_path d of
                None \<Rightarrow> ((Invalid, dir_namespace d, dir_rename d), s\<lparr>io := io s @ [Thrown config_error]\<rparr>)
              | Some p \<Rightarrow>
                  ((Listing p (fst (getDir p \<lparr>opt_cache = opt_cache options, opt_encoding = None,
                                     opt_precompiled = False, opt_throwTestError = False\<rparr> s)),
                    dir_namespace d, dir_rename d),
                   snd (getDir p \<lparr>opt_cache = opt_cache options, opt_encoding = None,
                                     opt_precompiled = False, opt_throwTestError = False\<rparr> s)))))"
  by (cases d) (auto simp: start_dir_def str_truthy_def split: option.splits prod.splits)







lemma getFile_fsCache:
  "map_of (fsCache (snd (getFile fp options s))) =
     (if opt_cache options \<and> map_of (fsCache s) (path_resolve (cwd s) [fp]) \<noteq> None
      then map_of (fsCache s)
      else (case fs_readFile (fs s) (path_resolve (cwd s) [fp])
                   (or_utf8 (str_or (opt_encoding options) (encoding s))) of
              Inl err \<Rightarrow> (map_of (fsCache s))(path_resolve (cwd s) [fp] := None)
            | Inr content \<Rightarrow> (map_of (fsCache s))(path_resolve (cwd s) [fp] \<mapsto> FileContent content)))"
  by (auto simp: getFile_def Let_def update_conv' delete_conv' split: option.splits sum.splits)









lemma promise_all_length:
  "promise_all rs = Inr xs \<Longrightarrow> length xs = length rs"
  by (induction rs arbitrary: xs rule: promise_all.induct) (auto split: sum.splits)









section \<open>Objects and trimming\<close>

lemma map_of_spread: "map_of (spread acc kv) = map_of acc ++ map_of kv"
proof -
  have "map_of (rev (map (\<lambda>k. (k, get kv k)) (map fst kv)) @ acc) k =
        (map_of acc ++ map_of kv) k" for k
  proof (cases "map_of kv k")
    case None
    then have "k \<notin> fst ` set kv" by (simp add: map_of_eq_None_iff)
    then have "map_of (rev (map (\<lambda>k. (k, get kv k)) (map fst kv))) k = None"
      by (auto simp: map_of_eq_None_iff image_iff)
    with None show ?thesis by (simp add: map_add_def)
  next
    case (Some v)
    then have "(k, v) \<in> set kv" by (rule map_of_SomeD)
    then have "(k, get kv k) \<in> set (rev (map (\<lambda>k. (k, get kv k)) (map fst kv)))"
      by (auto simp: image_iff intro: bexI[of _ "(k, v)"])
    then obtain v' where
      v': "map_of (rev (map (\<lambda>k. (k, get kv k)) (map fst kv))) k = Some v'"
      by (meson weak_map_of_SomeI)
    from map_of_SomeD[OF this] have "v' = get kv k" by auto
    with v' Some show ?thesis by (simp add: map_add_def get_def)
  qed
  then show ?thesis
    unfolding spread_def map_of_foldl_update by (intro ext)
qed

lemma get_spread_empty: "get (spread [] kv) k = get kv k"
  by (simp add: get_def map_of_spread)

lemma get_set_key: "get (set_key k v ob) k' = (if k' = k then v else get ob k')"
  by (simp add: get_def set_key_def update_conv')

lemma js_trim_spec:
  "(\<exists>l r. t = l @ js_trim t @ r \<and> list_all js_whitespace l \<and> list_all js_whitespace r)
   \<and> (js_trim t = [] \<or>
        (\<not> js_whitespace (hd (js_trim t)) \<and> \<not> js_whitespace (last (js_trim t))))"
proof -
  define l where "l = takeWhile js_whitespace t"
  define a where "a = dropWhile js_whitespace t"
  define b where "b = dropWhile js_whitespace (rev a)"
  define r where "r = rev (takeWhile js_whitespace (rev a))"
  have u: "js_trim t = rev b" by (simp add: js_trim_def b_def a_def)
  have t: "t = l @ a" by (simp add: l_def a_def)
  have "rev a = takeWhile js_whitespace (rev a) @ b" by (simp add: b_def)
  then have "rev (rev a) = rev (takeWhile js_whitespace (rev a) @ b)" by (rule arg_cong)
  then have a: "a = rev b @ r" by (simp add: r_def)
  have wl: "list_all js_whitespace l"
    unfolding l_def list_all_iff by (auto dest: set_takeWhileD)
  have wr: "list_all js_whitespace r"
    unfolding r_def list_all_iff by (auto dest: set_takeWhileD)
  have ends: "\<not> js_whitespace (hd (rev b)) \<and> \<not> js_whitespace (last (rev b))" if ne: "b \<noteq> []"
  proof -
    have hb: "\<not> js_whitespace (hd b)"
      using ne hd_dropWhile[of js_whitespace "rev a"] unfolding b_def by simp
    have "a \<noteq> []" using a ne by simp
    then have "\<not> js_whitespace (hd a)"
      using hd_dropWhile[of js_whitespace t] unfolding a_def by simp
    moreover have "hd a = hd (rev b)" using a ne by simp
    moreover have "last (rev b) = hd b" using ne by (simp add: last_rev)
    ultimately show ?thesis using hb by simp
  qed
  have "t = l @ js_trim t @ r" using t a u by simp
  with wl wr ends u show ?thesis by auto
qed

lemma js_trim_idem: "js_trim (js_trim t) = js_trim t"
proof (cases "js_trim t = []")
  case True
  have "js_trim [] = []" by (simp add: js_trim_def)
  with True show ?thesis by simp
next
  case False
  with js_trim_spec[of t] have e: "\<not> js_whitespace (hd (js_trim t))"
    "\<not> js_whitespace (last (js_trim t))" by auto
  have keep: "dropWhile P xs = xs" if "xs \<noteq> []" "\<not> P (hd xs)" for P :: "char \<Rightarrow> bool" and xs
    using that by (cases xs) auto
  have d1: "dropWhile js_whitespace (js_trim t) = js_trim t"
    using False e(1) by (rule keep)
  have "hd (rev (js_trim t)) = last (js_trim t)" using False by (simp add: hd_rev)
  with e(2) have "\<not> js_whitespace (hd (rev (js_trim t)))" by simp
  moreover have "rev (js_trim t) \<noteq> []" using False by simp
  ultimately have d2: "dropWhile js_whitespace (rev (js_trim t)) = rev (js_trim t)"
    by (intro keep)
  show ?thesis
    unfolding js_trim_def[of "js_trim t"] d1 d2 by simp
qed

section \<open>Rendering\<close>

lemma render_state:
  "\<exists>evs. unchanged s (snd (render fp ctx opts s))
     \<and> io (snd (render fp ctx opts s)) = io s @ Render fp # evs
     \<and> list_all (\<lambda>e. \<not> is_render e) evs"
proof -
  define s0 where "s0 = s\<lparr>io := io s @ [Render fp]\<rparr>"
  define s1 where "s1 = snd (getTemplate fp (render_opts opts s) s0)"
  define s2 where "s2 = (if truthy (get opts ''partials'') then s1
                         else snd (getPartials (render_opts opts s) s1))"
  have u0: "unchanged s s0" by (simp add: s0_def unchanged_def)
  have g1: "grows (\<lambda>e. \<not> is_render e) s0 s1"
    unfolding s1_def by (rule grows_mono[OF getTemplate_grows is_fs_call_not_render])
  have g2: "grows (\<lambda>e. \<not> is_render e) s1 s2"
    unfolding s2_def using getPartials_grows[of s1 "render_opts opts s"] by (simp add: grows_refl)
  from grows_trans[OF g1 g2] obtain evs where
    u: "unchanged s0 s2" and io: "io s2 = io s0 @ evs" and nr: "list_all (\<lambda>e. \<not> is_render e) evs"
    unfolding grows_def by blast
  have "snd (render fp ctx opts s) = s2"
    unfolding render_def s2_def s1_def s0_def
    by (auto split: prod.splits sum.splits)
  moreover have "io s2 = io s @ Render fp # evs" using io by (simp add: s0_def)
  ultimately show ?thesis using unchanged_trans[OF u0 u] nr by auto
qed

text \<open>
  A template that cannot be read and a descriptor without path and templates: the
  configuration error is the one that \<open>render\<close> reports; without that descriptor it is
  the read error.
\<close>

lemma render_reports_first_failure:
  "fst (getTemplate ''views/none.handlebars'' no_cache two_dirs) = Inl (FsError ''ENOENT'')
   \<and> fst (render ''views/none.handlebars'' [] [] two_dirs) =
       Inl (Error ''A partials dir must be a string or config object'')
   \<and> fst (render ''views/none.handlebars'' [] [] same_dirs) = Inl (FsError ''ENOENT'')"
  by code_simp

lemma render_success:
  assumes "render fp ctx opts s = (Inr html, s')"
  shows "\<exists>t pv out. hb_invoke (handlebars s) t ctx (template_options fp opts pv s') = Inr out
      \<and> html = js_trim out"
proof -
  have h: "handlebars s' = handlebars s"
    using render_state[of s fp ctx opts] assms by (auto simp: unchanged_def)
  from assms show ?thesis
    unfolding render_def
    by (auto simp: renderTemplate_def h split: prod.splits sum.splits if_splits)
qed

lemma template_options_unchanged:
  "unchanged s s' \<Longrightarrow> template_options fp opts pv s' = template_options fp opts pv s"
  by (simp add: template_options_def unchanged_def)

lemma update_map_value:
  "AList.update k (h v) (map (\<lambda>(k, e). (k, h e)) al) = map (\<lambda>(k, e). (k, h e)) (AList.update k v al)"
  by (induction al) auto

lemma delete_map_value:
  "AList.delete k (map (\<lambda>(k, e). (k, h e)) al) = map (\<lambda>(k, e). (k, h e)) (AList.delete k al)"
  by (rule delete_map) auto

lemma map_of_map_value:
  "map_of (map (\<lambda>(k, e). (k, h e)) al) k = map_option h (map_of al k)"
  by (simp add: map_of_map)

lemma trim_files_fields:
  "handlebars (trim_files s) = handlebars s"
  "extname (trim_files s) = extname s"
  "encoding (trim_files s) = encoding s"
  "layoutsDir (trim_files s) = layoutsDir s"
  "partialsDir (trim_files s) = partialsDir s"
  "defaultLayout (trim_files s) = defaultLayout s"
  "helpers (trim_files s) = helpers s"
  "compilerOptions (trim_files s) = compilerOptions s"
  "runtimeOptions (trim_files s) = runtimeOptions s"
  "config_partialsDir (trim_files s) = config_partialsDir s"
  "config_layoutsDir (trim_files s) = config_layoutsDir s"
  "compiled (trim_files s) = compiled s"
  "precompiled (trim_files s) = precompiled s"
  "cwd (trim_files s) = cwd s"
  "io (trim_files s) = io s"
  "fsCache (trim_files s) = map (\<lambda>(k, e). (k, trim_entry e)) (fsCache s)"
  "fs_glob (fs (trim_files s)) = fs_glob (fs s)"
  "fs_readFile (fs (trim_files s)) p enc =
     (case fs_readFile (fs s) p enc of Inl err \<Rightarrow> Inl err | Inr content \<Rightarrow> Inr (js_trim content))"
  by (simp_all add: trim_files_def)

lemma trim_files_updates:
  "trim_files (s\<lparr>io := x\<rparr>) = (trim_files s)\<lparr>io := x\<rparr>"
  "trim_files (s\<lparr>fsCache := c\<rparr>) = (trim_files s)\<lparr>fsCache := map (\<lambda>(k, e). (k, trim_entry e)) c\<rparr>"
  "trim_files (set_template_cache pre f s) = set_template_cache pre f (trim_files s)"
  by (simp_all add: trim_files_def set_template_cache_def)

lemma getFile_trim_files:
  "getFile fp options (trim_files s) =
     (case fst (getFile fp options s) of Inl err \<Rightarrow> Inl err | Inr e \<Rightarrow> Inr (trim_entry e),
      trim_files (snd (getFile fp options s)))"
  unfolding getFile_def Let_def
  by (simp add: trim_files_fields trim_files_updates map_of_map_value
      update_map_value[of _ trim_entry, symmetric, simplified]
      delete_map_value
      split: option.splits sum.splits)


lemma compile_file_trim_files:
  "compile_file pre (trim_files s) (trim_entry e) = compile_file pre s e"
  by (cases e)
     (simp_all add: compile_file_def compileTemplate_def precompileTemplate_def
        trim_files_fields js_trim_idem)

lemma template_cache_trim_files: "template_cache pre (trim_files s) = template_cache pre s"
  by (simp add: template_cache_def trim_files_fields)

lemma getTemplate_trim_files:
  "getTemplate fp options (trim_files s) =
     (fst (getTemplate fp options s), trim_files (snd (getTemplate fp options s)))"
proof (cases "opt_cache options \<longrightarrow>
      map_of (template_cache (opt_precompiled options) s) (path_resolve (cwd s) [fp]) = None")
  case False
  then obtain t where t: "opt_cache options"
    "map_of (template_cache (opt_precompiled options) s) (path_resolve (cwd s) [fp]) = Some t"
    by auto
  then have t': "map_of (template_cache (opt_precompiled options) (trim_files s))
      (path_resolve (cwd (trim_files s)) [fp]) = Some t"
    by (simp add: template_cache_trim_files trim_files_fields)
  from getTemplate_hit[OF t] getTemplate_hit[OF t(1) t'] show ?thesis by simp
next
  case True
  then have miss': "opt_cache options \<longrightarrow>
      map_of (template_cache (opt_precompiled options) (trim_files s))
        (path_resolve (cwd (trim_files s)) [fp]) = None"
    by (simp add: template_cache_trim_files trim_files_fields)
  define r where "r = getFile (path_resolve (cwd s) [fp])
            \<lparr>opt_cache = opt_cache options,
             opt_encoding = str_or (opt_encoding options) (encoding s),
             opt_precompiled = False, opt_throwTestError = False\<rparr> s"
  obtain a s1 where r: "r = (a, s1)" by (cases r)
  have un: "unchanged s s1"
    using grows_unchanged[OF getFile_grows[of s]] r unfolding r_def by (metis snd_conv)
  have cf: "compile_file pre (trim_files s1) (trim_entry e) = compile_file pre s1 e" for pre e
    by (rule compile_file_trim_files)
  show ?thesis
    unfolding getTemplate_miss[OF True] getTemplate_miss[OF miss']
    unfolding trim_files_fields getFile_trim_files r_def[symmetric] r
    by (cases a; cases "compile_file (opt_precompiled options) s1 (projr a)")
       (simp_all add: cf trim_files_updates)
qed

lemma getDir_trim_files:
  assumes "opt_cache options \<longrightarrow>
     (\<forall>content. map_of (fsCache s) (path_resolve (cwd s) [dp]) \<noteq> Some (FileContent content))"
  shows "getDir dp options (trim_files s) =
     (fst (getDir dp options s), trim_files (snd (getDir dp options s)))"
proof (cases "opt_cache options \<longrightarrow> map_of (fsCache s) (path_resolve (cwd s) [dp]) = None")
  case True
  then have miss': "opt_cache options \<longrightarrow>
      map_of (fsCache (trim_files s)) (path_resolve (cwd (trim_files s)) [dp]) = None"
    by (simp add: trim_files_fields map_of_map_value)
  show ?thesis
    unfolding getDir_miss[OF True] getDir_miss[OF miss']
    by (simp add: trim_files_fields trim_files_updates
        update_map_value[where h = trim_entry and v = "DirListing x" for x, simplified]
        delete_map_value split: sum.splits)
next
  case False
  then obtain e where e: "opt_cache options"
    "map_of (fsCache s) (path_resolve (cwd s) [dp]) = Some e" by auto
  with assms obtain files where f: "e = DirListing files" by (cases e) auto
  from e f show ?thesis
    by (simp add: getDir_def Let_def trim_files_fields map_of_map_value)
qed


lemma load_all_trim_files:
  "load_all dp files options (trim_files s) =
     (fst (load_all dp files options s), trim_files (snd (load_all dp files options s)))"
proof (induction files arbitrary: s)
  case Nil
  show ?case by simp
next
  case (Cons f files)
  show ?case
    by (simp add: getTemplate_trim_files Cons.IH split: prod.splits)
qed

lemma load_templates_trim_files:
  "load_templates dp files options (trim_files s) =
     (fst (load_templates dp files options s), trim_files (snd (load_templates dp files options s)))"
  unfolding load_templates_def load_all_trim_files
  by (simp split: prod.splits sum.splits)

lemma is_directory_io: "is_directory (s\<lparr>io := x\<rparr>) k = is_directory s k"
  by (simp add: is_directory_def)

lemma getDir_is_directory:
  assumes "is_directory s k"
  shows "is_directory (snd (getDir dp options s)) k"
proof -
  have "fs (snd (getDir dp options s)) = fs s"
    using grows_unchanged[OF getDir_grows[of s dp options]] by (simp add: unchanged_def)
  moreover have "map_of (fsCache (snd (getDir dp options s))) k \<noteq> Some (FileContent content)" for content
    using assms
    by (auto simp: getDir_def Let_def is_directory_def update_conv' delete_conv'
        split: option.splits sum.splits if_splits)
  ultimately show ?thesis using assms by (simp add: is_directory_def)
qed

lemma getFile_is_directory:
  assumes "is_directory s k"
  shows "is_directory (snd (getFile fp options s)) k"
proof -
  have "fs (snd (getFile fp options s)) = fs s"
    using grows_unchanged[OF getFile_grows[of s fp options]] by (simp add: unchanged_def)
  moreover have "map_of (fsCache (snd (getFile fp options s))) k \<noteq> Some (FileContent content)" for content
  proof (cases "k = path_resolve (cwd s) [fp]")
    case False
    then show ?thesis using assms
      by (auto simp: getFile_fsCache is_directory_def split: sum.splits)
  next
    case True
    from assms have "isl (fs_readFile (fs s) k (or_utf8 (str_or (opt_encoding options) (encoding s))))"
      by (simp add: is_directory_def)
    then obtain err where
      "fs_readFile (fs s) (path_resolve (cwd s) [fp])
         (or_utf8 (str_or (opt_encoding options) (encoding s))) = Inl err"
      unfolding True by (auto simp: isl_def)
    then show ?thesis using assms True
      by (simp add: getFile_fsCache is_directory_def)
  qed
  ultimately show ?thesis using assms by (simp add: is_directory_def)
qed

lemma getTemplate_is_directory:
  assumes "is_directory s k"
  shows "is_directory (snd (getTemplate fp options s)) k"
proof (cases rule: getTemplate_cases[of options s fp])
  case (hit t)
  with assms show ?thesis by simp
next
  case (miss f)
  have "is_directory (set_template_cache pre f x) k = is_directory x k" for pre x
    by (simp add: is_directory_def set_template_cache_def)
  with getFile_is_directory[OF assms] show ?thesis unfolding miss(2) by simp
qed


lemma dir_keys_Cons:
  "set (dir_keys (d # ds) s) =
     (case dir_templates d of
        Some t \<Rightarrow> {}
      | None \<Rightarrow> (case dir_path d of None \<Rightarrow> {} | Some p \<Rightarrow> {path_resolve (cwd s) [p]}))
     \<union> set (dir_keys ds s)"
  by (simp add: dir_keys_def split: option.splits)

lemma dir_keys_unchanged:
  assumes "unchanged s s'"
  shows "dir_keys ds s' = dir_keys ds s"
proof -
  from assms have c: "cwd s' = cwd s" by (simp add: unchanged_def)
  show ?thesis unfolding dir_keys_def c ..
qed

lemma start_dir_is_directory:
  assumes "is_directory s k"
  shows "is_directory (snd (start_dir d options s)) k"
  unfolding start_dir_unfold
  using assms getDir_is_directory[OF assms]
  by (simp add: is_directory_io split: option.splits)

lemma start_dir_trim_files:
  assumes "opt_cache options \<longrightarrow> (\<forall>k\<in>set (dir_keys [d] s). is_directory s k)"
  shows "start_dir d options (trim_files s) =
     (fst (start_dir d options s), trim_files (snd (start_dir d options s)))"
proof -
  have gd: "getDir p \<lparr>opt_cache = opt_cache options, opt_encoding = None,
                 opt_precompiled = False, opt_throwTestError = False\<rparr> (trim_files s) =
      (fst (getDir p \<lparr>opt_cache = opt_cache options, opt_encoding = None,
                 opt_precompiled = False, opt_throwTestError = False\<rparr> s),
       trim_files (snd (getDir p \<lparr>opt_cache = opt_cache options, opt_encoding = None,
                 opt_precompiled = False, opt_throwTestError = False\<rparr> s)))"
    if "dir_templates d = None" "dir_path d = Some p" for p
  proof (rule getDir_trim_files)
    show "opt_cache \<lparr>opt_cache = opt_cache options, opt_encoding = None,
                 opt_precompiled = False, opt_throwTestError = False\<rparr> \<longrightarrow>
       (\<forall>content. map_of (fsCache s) (path_resolve (cwd s) [p]) \<noteq> Some (FileContent content))"
      using assms that by (simp add: dir_keys_def is_directory_def)
  qed
  show ?thesis
    unfolding start_dir_unfold
    using gd by (simp add: trim_files_updates trim_files_fields split: option.splits)
qed

lemma start_all_Cons:
  "start_all (d # ds) options s =
     (fst (start_dir d options s) # fst (start_all ds options (snd (start_dir d options s))),
      snd (start_all ds options (snd (start_dir d options s))))"
  by (simp split: prod.splits)

lemma start_all_is_directory:
  assumes "is_directory s k"
  shows "is_directory (snd (start_all ds options s)) k"
  using assms
proof (induction ds arbitrary: s)
  case Nil
  then show ?case by simp
next
  case (Cons d ds)
  from Cons.IH[OF start_dir_is_directory[OF Cons.prems, of d options]]
  show ?case unfolding start_all_Cons by simp
qed

lemma start_all_trim_files:
  assumes "opt_cache options \<longrightarrow> (\<forall>k\<in>set (dir_keys ds s). is_directory s k)"
  shows "start_all ds options (trim_files s) =
     (fst (start_all ds options s), trim_files (snd (start_all ds options s)))
     \<and> (opt_cache options \<longrightarrow> (\<forall>k\<in>set (dir_keys ds s). is_directory (snd (start_all ds options s)) k))"
  using assms
proof (induction ds arbitrary: s)
  case Nil
  show ?case by (simp add: dir_keys_def)
next
  case (Cons d ds)
  define s1 where "s1 = snd (start_dir d options s)"
  have un: "unchanged s s1"
    unfolding s1_def using grows_unchanged[OF start_dir_grows[of s d options]] .
  have a: "opt_cache options \<longrightarrow> (\<forall>k\<in>set (dir_keys [d] s). is_directory s k)"
    using Cons.prems by (simp add: dir_keys_Cons dir_keys_def)
  have b: "opt_cache options \<longrightarrow> (\<forall>k\<in>set (dir_keys (d # ds) s). is_directory s1 k)"
    using Cons.prems start_dir_is_directory[of s _ d options] unfolding s1_def by blast
  then have b': "opt_cache options \<longrightarrow> (\<forall>k\<in>set (dir_keys ds s1). is_directory s1 k)"
    unfolding dir_keys_unchanged[OF un] by (simp add: dir_keys_Cons)
  from Cons.IH[OF b'] have
    ih1: "start_all ds options (trim_files s1) =
       (fst (start_all ds options s1), trim_files (snd (start_all ds options s1)))"
    and ih2: "opt_cache options \<longrightarrow>
       (\<forall>k\<in>set (dir_keys ds s1). is_directory (snd (start_all ds options s1)) k)"
    by simp_all
  have c: "opt_cache options \<longrightarrow>
       (\<forall>k\<in>set (dir_keys (d # ds) s). is_directory (snd (start_all ds options s1)) k)"
    using b start_all_is_directory[of s1 _ ds options] by blast
  show ?case
    unfolding start_all_Cons start_dir_trim_files[OF a] s1_def[symmetric]
    using ih1 c by simp
qed


lemma finish_dir_trim_files:
  "finish_dir st options (trim_files s) =
     (fst (finish_dir st options s), trim_files (snd (finish_dir st options s)))"
  by (cases "(st, options, s)" rule: finish_dir.cases)
     (auto simp: load_templates_trim_files split: prod.splits sum.splits)

lemma finish_all_Cons:
  "finish_all (st # sts) options s =
     (fst (finish_dir st options s) # fst (finish_all sts options (snd (finish_dir st options s))),
      snd (finish_all sts options (snd (finish_dir st options s))))"
  by (simp split: prod.splits)

lemma finish_all_trim_files:
  "finish_all sts options (trim_files s) =
     (fst (finish_all sts options s), trim_files (snd (finish_all sts options s)))"
proof (induction sts arbitrary: s)
  case Nil
  show ?case by simp
next
  case (Cons st sts)
  show ?case
    unfolding finish_all_Cons finish_dir_trim_files
    by (simp add: Cons.IH)
qed

lemma getPartials_unfold:
  assumes "partialsDir s = Some spec"
  shows "getPartials options s =
    (if list_ex is_invalid (fst (start_all (dirs_of spec) options s))
     then Inl config_error
     else (case promise_all (fst (finish_all (fst (start_all (dirs_of spec) options s)) options
                                    (snd (start_all (dirs_of spec) options s)))) of
             Inl err \<Rightarrow> Inl err
           | Inr dirs' \<Rightarrow> Inr (foldl (add_templates (extname s)) [] dirs')),
     snd (finish_all (fst (start_all (dirs_of spec) options s)) options
            (snd (start_all (dirs_of spec) options s))))"
proof -
  obtain starts s1 where st: "start_all (dirs_of spec) options s = (starts, s1)"
    by (cases "start_all (dirs_of spec) options s")
  obtain rs s2 where fin: "finish_all starts options s1 = (rs, s2)"
    by (cases "finish_all starts options s1")
  have "unchanged s s1"
    using grows_unchanged[OF start_all_grows[of s "dirs_of spec" options]] st by simp
  moreover have "unchanged s1 s2"
    using grows_unchanged[OF finish_all_grows[of s1 starts options]] fin by simp
  ultimately have ext: "extname s2 = extname s" by (simp add: unchanged_def)
  show ?thesis
    unfolding getPartials_some[OF assms] st
    by (simp add: fin ext split: sum.splits)
qed

lemma getPartials_trim_files:
  assumes "opt_cache options \<longrightarrow> (\<forall>k\<in>set (listed_dirs s). is_directory s k)"
  shows "getPartials options (trim_files s) =
     (fst (getPartials options s), trim_files (snd (getPartials options s)))"
proof (cases "partialsDir s")
  case None
  then show ?thesis by (simp add: getPartials_def trim_files_fields)
next
  case (Some spec)
  then have spec': "partialsDir (trim_files s) = Some spec" by (simp add: trim_files_fields)
  have a: "opt_cache options \<longrightarrow> (\<forall>k\<in>set (dir_keys (dirs_of spec) s). is_directory s k)"
    using assms Some by (simp add: listed_dirs_def)
  from start_all_trim_files[OF a] have
    st: "start_all (dirs_of spec) options (trim_files s) =
       (fst (start_all (dirs_of spec) options s), trim_files (snd (start_all (dirs_of spec) options s)))"
    by simp
  show ?thesis
    unfolding getPartials_unfold[OF Some] getPartials_unfold[OF spec'] st trim_files_fields
    by (simp add: finish_all_trim_files)
qed

lemma throws_at_once_trim_files:
  assumes "opt_cache options \<longrightarrow> (\<forall>k\<in>set (listed_dirs s). is_directory s k)"
  shows "throws_at_once options (trim_files s) = throws_at_once options s"
proof (cases "partialsDir s")
  case None
  then show ?thesis by (simp add: throws_at_once_def trim_files_fields)
next
  case (Some spec)
  have a: "opt_cache options \<longrightarrow> (\<forall>k\<in>set (dir_keys (dirs_of spec) s). is_directory s k)"
    using assms Some by (simp add: listed_dirs_def)
  from start_all_trim_files[OF a] have
    st: "start_all (dirs_of spec) options (trim_files s) =
       (fst (start_all (dirs_of spec) options s), trim_files (snd (start_all (dirs_of spec) options s)))"
    by simp
  show ?thesis
    using Some st by (simp add: throws_at_once_def trim_files_fields dirs_of_def)
qed


lemma render_unfold:
  assumes s1: "s1 = snd (getTemplate fp (render_opts opts s) (s\<lparr>io := io s @ [Render fp]\<rparr>))"
    and t: "t = fst (getTemplate fp (render_opts opts s) (s\<lparr>io := io s @ [Render fp]\<rparr>))"
  shows "render fp ctx opts s =
    (if truthy (get opts ''partials'')
     then (case t of
             Inl err \<Rightarrow> Inl err
           | Inr template \<Rightarrow>
               renderTemplate s1 template ctx (template_options fp opts (get opts ''partials'') s1),
           s1)
     else (case t of
             Inl err \<Rightarrow>
               (case fst (getPartials (render_opts opts s) s1) of
                  Inl err' \<Rightarrow> if throws_at_once (render_opts opts s) s1 then Inl err' else Inl err
                | Inr ps \<Rightarrow> Inl err)
           | Inr template \<Rightarrow>
               (case fst (getPartials (render_opts opts s) s1) of
                  Inl err \<Rightarrow> Inl err
                | Inr ps \<Rightarrow>
                    renderTemplate (snd (getPartials (render_opts opts s) s1)) template ctx
                      (template_options fp opts (Obj ps) (snd (getPartials (render_opts opts s) s1)))),
           snd (getPartials (render_opts opts s) s1)))"
proof -
  obtain t' s1' where gt: "getTemplate fp (render_opts opts s) (s\<lparr>io := io s @ [Render fp]\<rparr>) = (t', s1')"
    by (cases "getTemplate fp (render_opts opts s) (s\<lparr>io := io s @ [Render fp]\<rparr>)")
  then have e: "s1 = s1'" "t = t'" using s1 t by simp_all
  obtain p s2 where gp: "getPartials (render_opts opts s) s1' = (p, s2)"
    by (cases "getPartials (render_opts opts s) s1'")
  show ?thesis
    unfolding render_def gt e
    by (cases t'; cases p) (simp_all add: gp)
qed

lemma listed_dirs_unchanged:
  assumes "unchanged s s'"
  shows "listed_dirs s' = listed_dirs s"
  using assms dir_keys_unchanged[OF assms]
  by (simp add: listed_dirs_def unchanged_def split: option.splits)

lemma render_trim_files:
  assumes "truthy (get opts ''cache'') \<and> \<not> truthy (get opts ''partials'') \<longrightarrow>
      (\<forall>k\<in>set (listed_dirs s). is_directory s k)"
  shows "render fp ctx opts (trim_files s) =
     (fst (render fp ctx opts s), trim_files (snd (render fp ctx opts s)))"
proof -
  define ro where "ro = render_opts opts s"
  define s0 where "s0 = s\<lparr>io := io s @ [Render fp]\<rparr>"
  define t where "t = fst (getTemplate fp ro s0)"
  define s1 where "s1 = snd (getTemplate fp ro s0)"
  have ro': "render_opts opts (trim_files s) = ro"
    by (simp add: ro_def render_opts_def trim_files_fields)
  have s0': "(trim_files s)\<lparr>io := io (trim_files s) @ [Render fp]\<rparr> = trim_files s0"
    by (simp add: s0_def trim_files_updates trim_files_fields)
  have gt: "getTemplate fp ro (trim_files s0) = (t, trim_files s1)"
    unfolding getTemplate_trim_files t_def s1_def ..
  note a = render_unfold[of s1 fp opts s t ctx, folded ro_def s0_def, OF s1_def t_def]
  have b: "render fp ctx opts (trim_files s) =
    (if truthy (get opts ''partials'')
     then (case t of
             Inl err \<Rightarrow> Inl err
           | Inr template \<Rightarrow>
               renderTemplate (trim_files s1) template ctx
                 (template_options fp opts (get opts ''partials'') (trim_files s1)),
           trim_files s1)
     else (case t of
             Inl err \<Rightarrow>
               (case fst (getPartials ro (trim_files s1)) of
                  Inl err' \<Rightarrow> if throws_at_once ro (trim_files s1) then Inl err' else Inl err
                | Inr ps \<Rightarrow> Inl err)
           | Inr template \<Rightarrow>
               (case fst (getPartials ro (trim_files s1)) of
                  Inl err \<Rightarrow> Inl err
                | Inr ps \<Rightarrow>
                    renderTemplate (snd (getPartials ro (trim_files s1))) template ctx
                      (template_options fp opts (Obj ps) (snd (getPartials ro (trim_files s1))))),
           snd (getPartials ro (trim_files s1))))"
    by (rule render_unfold[of "trim_files s1" fp opts "trim_files s" t ctx, unfolded ro' s0'])
       (simp_all add: gt)
  have rt: "renderTemplate (trim_files x) tpl ctx y = renderTemplate x tpl ctx y" for x tpl y
    by (simp add: renderTemplate_def trim_files_fields)
  have to: "template_options fp opts pv (trim_files x) = template_options fp opts pv x" for pv x
    by (simp add: template_options_def trim_files_fields)
  show ?thesis
  proof (cases "truthy (get opts ''partials'')")
    case True
    then show ?thesis unfolding a b rt to by simp
  next
    case False
    have un: "unchanged s s1"
    proof -
      have "unchanged s s0" by (simp add: s0_def unchanged_def)
      moreover have "unchanged s0 s1"
        unfolding s1_def by (rule grows_unchanged[OF getTemplate_grows])
      ultimately show ?thesis by (rule unchanged_trans)
    qed
    have inv: "opt_cache ro \<longrightarrow> (\<forall>k\<in>set (listed_dirs s1). is_directory s1 k)"
    proof (intro impI ballI)
      fix k assume c: "opt_cache ro" and k: "k \<in> set (listed_dirs s1)"
      from c have "truthy (get opts ''cache'')" by (simp add: ro_def render_opts_def)
      with assms False k have "is_directory s k"
        unfolding listed_dirs_unchanged[OF un] by simp
      then have "is_directory s0 k" by (simp add: s0_def is_directory_io)
      then show "is_directory s1 k" unfolding s1_def by (rule getTemplate_is_directory)
    qed
    show ?thesis
      unfolding a b getPartials_trim_files[OF inv] throws_at_once_trim_files[OF inv]
        fst_conv snd_conv rt to
      using False by simp
  qed
qed


lemma is_directory_trim_files: "is_directory (trim_files s) k = is_directory s k"
proof -
  have a: "isl (fs_readFile (fs (trim_files s)) k enc) = isl (fs_readFile (fs s) k enc)" for enc
    by (simp add: trim_files_fields split: sum.splits)
  have b: "(map_of (fsCache (trim_files s)) k = Some (FileContent c)) =
           (\<exists>c'. map_of (fsCache s) k = Some (FileContent c') \<and> c = js_trim c')" for c
  proof (cases "map_of (fsCache s) k")
    case None
    then show ?thesis by (simp add: trim_files_fields map_of_map_value)
  next
    case (Some e)
    then show ?thesis by (cases e) (auto simp: trim_files_fields map_of_map_value)
  qed
  show ?thesis unfolding is_directory_def a b by blast
qed

lemma listed_dirs_trim_files: "listed_dirs (trim_files s) = listed_dirs s"
  unfolding listed_dirs_def dir_keys_def trim_files_fields ..

lemma getTemplate_fresh:
  assumes abs: "is_absolute (cwd s)"
    and p: "p = path_resolve (cwd s) [fp]"
    and enc: "enc = or_utf8 (str_or (opt_encoding options) (encoding s))"
    and miss: "opt_cache options \<longrightarrow> map_of (template_cache (opt_precompiled options) s) p = None"
  shows "fst (getTemplate fp options s) =
     (case (if opt_cache options then map_of (fsCache s) p else None) of
        Some fl \<Rightarrow> compile_file (opt_precompiled options) s fl
      | None \<Rightarrow>
          (case fs_readFile (fs s) p enc of
             Inl err \<Rightarrow> Inl err
           | Inr content \<Rightarrow> compile_file (opt_precompiled options) s (FileContent content)))"
proof -
  have pp: "path_resolve (cwd s) [p] = p"
    unfolding p by (rule path_resolve_idem[OF abs])
  show ?thesis
    unfolding getTemplate_result getFile_result p[symmetric]
    using miss
    by (simp add: pp str_or_idem enc[symmetric] split: option.splits sum.splits)
qed

lemma trim_files_mem_fs:
  assumes "map (\<lambda>(k, c). (k, js_trim c)) files1 = map (\<lambda>(k, c). (k, js_trim c)) files2"
  shows "trim_files (s\<lparr>fs := mem_fs files1 dirs\<rparr>) = trim_files (s\<lparr>fs := mem_fs files2 dirs\<rparr>)"
proof -
  have mo: "map_option js_trim (map_of files1 p) = map_option js_trim (map_of files2 p)" for p
    using map_of_map_value[of js_trim files1 p] map_of_map_value[of js_trim files2 p] assms
    by simp
  have "(case fs_readFile (mem_fs files1 dirs) p enc of
           Inl err \<Rightarrow> Inl err | Inr content \<Rightarrow> Inr (js_trim content)) =
        (case fs_readFile (mem_fs files2 dirs) p enc of
           Inl err \<Rightarrow> Inl err | Inr content \<Rightarrow> Inr (js_trim content))" for p enc
    using mo[of p]
    by (cases "map_of files1 p"; cases "map_of files2 p") (simp_all add: mem_fs_def)
  then have "(\<lambda>p enc. case fs_readFile (mem_fs files1 dirs) p enc of
                 Inl err \<Rightarrow> Inl err | Inr content \<Rightarrow> Inr (js_trim content)) =
        (\<lambda>p enc. case fs_readFile (mem_fs files2 dirs) p enc of
                 Inl err \<Rightarrow> Inl err | Inr content \<Rightarrow> Inr (js_trim content))"
    by (intro ext)
  then show ?thesis
    by (simp add: trim_files_def mem_fs_def)
qed

text \<open>
  C8. When \<open>render\<close> succeeds, what it returns is the output of the template that
  \<open>getTemplate\<close> delivers for the file, invoked with the context and the partials, with
  the white space at both ends removed: it neither begins nor ends with a white-space
  character. The compile hooks hand the trimmed text to the engine, so a template that
  is not taken from the template cache is compiled from the trimmed content of its file,
  read afresh or taken from the file-system cache. Hence white space around the text of
  the files, blank lines among it, never affects the result of \<open>render\<close>: the result is
  the same as on the state in which every file holds its trimmed text (\<open>trim_files\<close>), and
  the same in any two states that differ in such white space only. This holds for every
  render, also when partials are loaded from the configured directories; the paths of
  those directories must name directories, not files, when the cache is enabled.
\<close>

theorem render_trims_template_and_output:
  assumes abs: "is_absolute (cwd s)"
    and p: "p = path_resolve (cwd s) [fp]"
    and enc: "enc = or_utf8 (str_or (as_str (get opts ''encoding'')) (encoding s))"
    and s0: "s0 = s\<lparr>io := io s @ [Render fp]\<rparr>"
  shows
    "(fst (render fp ctx opts s) = Inr html \<longrightarrow>
        (\<exists>t pv out.
            fst (getTemplate fp (render_opts opts s) s0) = Inr t
          \<and> (if truthy (get opts ''partials'') then pv = get opts ''partials''
               else \<exists>ps. fst (getPartials (render_opts opts s)
                                (snd (getTemplate fp (render_opts opts s) s0))) = Inr ps
                         \<and> pv = Obj ps)
          \<and> hb_invoke (handlebars s) t ctx (template_options fp opts pv s) = Inr out
          \<and> html = js_trim out)
        \<and> (html = [] \<or> (\<not> js_whitespace (hd html) \<and> \<not> js_whitespace (last html))))
     \<and> compileTemplate s text co = hb_compile (handlebars s) (js_trim text) co
     \<and> precompileTemplate s text co = hb_precompile (handlebars s) (js_trim text) co
     \<and> ((truthy (get opts ''cache'') \<longrightarrow> map_of (compiled s) p = None) \<longrightarrow>
          fst (getTemplate fp (render_opts opts s) s0) =
            (case (if truthy (get opts ''cache'') then map_of (fsCache s) p else None) of
               Some (FileContent content) \<Rightarrow>
                 hb_compile (handlebars s) (js_trim content) (compilerOptions s)
             | Some (DirListing files) \<Rightarrow> Inl (TypeError ''template.trim is not a function'')
             | None \<Rightarrow>
                 (case fs_readFile (fs s) p enc of
                    Inl err \<Rightarrow> Inl err
                  | Inr content \<Rightarrow>
                      hb_compile (handlebars s) (js_trim content) (compilerOptions s))))
     \<and> ((truthy (get opts ''cache'') \<and> \<not> truthy (get opts ''partials'') \<longrightarrow>
             (\<forall>k\<in>set (listed_dirs s). is_directory s k)) \<longrightarrow>
          fst (render fp ctx opts (trim_files s)) = fst (render fp ctx opts s)
          \<and> (\<forall>s'. trim_files s' = trim_files s \<longrightarrow>
                 fst (render fp ctx opts s') = fst (render fp ctx opts s)))"
proof -
  define ro where "ro = render_opts opts s"
  define t where "t = fst (getTemplate fp ro s0)"
  define s1 where "s1 = snd (getTemplate fp ro s0)"
  define s2 where "s2 = snd (getPartials ro s1)"
  have un1: "unchanged s s1"
  proof -
    have "unchanged s s0" by (simp add: s0 unchanged_def)
    moreover have "unchanged s0 s1"
      unfolding s1_def by (rule grows_unchanged[OF getTemplate_grows])
    ultimately show ?thesis by (rule unchanged_trans)
  qed
  have un2: "unchanged s s2"
    unfolding s2_def
    by (rule unchanged_trans[OF un1 grows_unchanged[OF getPartials_grows]])
  note ru = render_unfold[of s1 fp opts s t ctx, folded ro_def, folded s0, OF s1_def t_def,
      folded s2_def]
  have out: "(\<exists>t pv out.
            fst (getTemplate fp ro s0) = Inr t
          \<and> (if truthy (get opts ''partials'') then pv = get opts ''partials''
               else \<exists>ps. fst (getPartials ro (snd (getTemplate fp ro s0))) = Inr ps \<and> pv = Obj ps)
          \<and> hb_invoke (handlebars s) t ctx (template_options fp opts pv s) = Inr out
          \<and> html = js_trim out)
        \<and> (html = [] \<or> (\<not> js_whitespace (hd html) \<and> \<not> js_whitespace (last html)))"
    if r: "fst (render fp ctx opts s) = Inr html"
  proof -
    have inv: "\<exists>out. hb_invoke (handlebars s) tpl ctx (template_options fp opts pv s) = Inr out
          \<and> html = js_trim out"
      if "renderTemplate x tpl ctx (template_options fp opts pv x) = Inr html" "unchanged s x"
      for x tpl pv
      using that
      by (auto simp: renderTemplate_def template_options_unchanged[OF that(2)] unchanged_def
          split: sum.splits)
    have "\<exists>tpl pv out.
            t = Inr tpl
          \<and> (if truthy (get opts ''partials'') then pv = get opts ''partials''
               else \<exists>ps. fst (getPartials ro s1) = Inr ps \<and> pv = Obj ps)
          \<and> hb_invoke (handlebars s) tpl ctx (template_options fp opts pv s) = Inr out
          \<and> html = js_trim out"
    proof (cases "truthy (get opts ''partials'')")
      case True
      with r obtain tpl where tpl: "t = Inr tpl"
        and rt: "renderTemplate s1 tpl ctx (template_options fp opts (get opts ''partials'') s1) = Inr html"
        unfolding ru by (cases t) auto
      from inv[OF rt un1] tpl True show ?thesis by auto
    next
      case False
      with r obtain tpl ps where tpl: "t = Inr tpl" and ps: "fst (getPartials ro s1) = Inr ps"
        and rt: "renderTemplate s2 tpl ctx (template_options fp opts (Obj ps) s2) = Inr html"
        unfolding ru by (cases t; cases "fst (getPartials ro s1)") (auto split: if_splits)
      from inv[OF rt un2] tpl ps False show ?thesis by auto
    qed
    then obtain tpl pv out where
      w: "t = Inr tpl"
        "if truthy (get opts ''partials'') then pv = get opts ''partials''
         else \<exists>ps. fst (getPartials ro s1) = Inr ps \<and> pv = Obj ps"
        "hb_invoke (handlebars s) tpl ctx (template_options fp opts pv s) = Inr out"
        "html = js_trim out"
      by blast
    from js_trim_spec[of out] w(4)
    have "html = [] \<or> (\<not> js_whitespace (hd html) \<and> \<not> js_whitespace (last html))" by simp
    with w show ?thesis unfolding t_def s1_def by blast
  qed
  have hooks: "compileTemplate s text co = hb_compile (handlebars s) (js_trim text) co"
    "precompileTemplate s text co = hb_precompile (handlebars s) (js_trim text) co"
    by (simp_all add: compileTemplate_def precompileTemplate_def)
  have fresh: "fst (getTemplate fp ro s0) =
            (case (if truthy (get opts ''cache'') then map_of (fsCache s) p else None) of
               Some (FileContent content) \<Rightarrow>
                 hb_compile (handlebars s) (js_trim content) (compilerOptions s)
             | Some (DirListing files) \<Rightarrow> Inl (TypeError ''template.trim is not a function'')
             | None \<Rightarrow>
                 (case fs_readFile (fs s) p enc of
                    Inl err \<Rightarrow> Inl err
                  | Inr content \<Rightarrow>
                      hb_compile (handlebars s) (js_trim content) (compilerOptions s)))"
    if miss: "truthy (get opts ''cache'') \<longrightarrow> map_of (compiled s) p = None"
  proof -
    have a: "is_absolute (cwd s0)" "p = path_resolve (cwd s0) [fp]"
      "enc = or_utf8 (str_or (opt_encoding ro) (encoding s0))"
      "opt_cache ro \<longrightarrow> map_of (template_cache (opt_precompiled ro) s0) p = None"
      using abs p enc miss
      by (simp_all add: s0 ro_def render_opts_def str_or_idem template_cache_def)
    show ?thesis
      unfolding getTemplate_fresh[OF a]
      by (simp add: s0 ro_def render_opts_def compile_file_def compileTemplate_def
          split: option.splits fs_entry.splits sum.splits)
  qed
  have same: "fst (render fp ctx opts (trim_files s)) = fst (render fp ctx opts s)
          \<and> (\<forall>s'. trim_files s' = trim_files s \<longrightarrow>
                 fst (render fp ctx opts s') = fst (render fp ctx opts s))"
    if d: "truthy (get opts ''cache'') \<and> \<not> truthy (get opts ''partials'') \<longrightarrow>
             (\<forall>k\<in>set (listed_dirs s). is_directory s k)"
  proof -
    have one: "fst (render fp ctx opts (trim_files s)) = fst (render fp ctx opts s)"
      unfolding render_trim_files[OF d] by simp
    have "fst (render fp ctx opts s') = fst (render fp ctx opts s)"
      if e: "trim_files s' = trim_files s" for s'
    proof -
      have "listed_dirs s' = listed_dirs s"
        using listed_dirs_trim_files[of s'] listed_dirs_trim_files[of s] e by simp
      moreover have "is_directory s' k = is_directory s k" for k
        using is_directory_trim_files[of s' k] is_directory_trim_files[of s k] e by simp
      ultimately have d': "truthy (get opts ''cache'') \<and> \<not> truthy (get opts ''partials'') \<longrightarrow>
             (\<forall>k\<in>set (listed_dirs s'). is_directory s' k)"
        using d by simp
      have "fst (render fp ctx opts s') = fst (render fp ctx opts (trim_files s'))"
        unfolding render_trim_files[OF d'] by simp
      with one e show ?thesis by simp
    qed
    with one show ?thesis by blast
  qed
  from out hooks fresh same show ?thesis
    unfolding ro_def by blast
qed

theorem render_trims_template_and_output_witness:
  "is_absolute (cwd padded)
   \<and> listed_dirs padded = [''/app/views/partials'', ''/app/shared'']
   \<and> is_directory padded ''/app/views/partials'' \<and> is_directory padded ''/app/shared''
   \<and> fs_readFile (fs padded) ''/app/views/home.handlebars'' ''utf8'' =
       Inr ''\<newline>\<newline><p>{{title}}</p>\<newline>''
   \<and> fst (getTemplate ''views/home.handlebars'' (render_opts cache_options padded)
           (padded\<lparr>io := io padded @ [Render ''views/home.handlebars'']\<rparr>)) = Inr ''<p>{{title}}</p>''
   \<and> fst (render ''views/home.handlebars'' title_context cache_options padded) = Inr ''<p>Hi</p>''
   \<and> fst (render ''views/home.handlebars'' title_context cache_options (trim_files padded)) =
       Inr ''<p>Hi</p>''
   \<and> trim_files spaced = trim_files padded
   \<and> fst (render ''views/home.handlebars'' title_context cache_options spaced) = Inr ''<p>Hi</p>''"
proof -
  have a: "is_absolute (cwd padded)" by code_simp
  have p: "''/app/views/home.handlebars'' = path_resolve (cwd padded) [''views/home.handlebars'']"
    by code_simp
  have e: "''utf8'' = or_utf8 (str_or (as_str (get cache_options ''encoding'')) (encoding padded))"
    by code_simp
  have l: "listed_dirs padded = [''/app/views/partials'', ''/app/shared'']" by code_simp
  have d: "is_directory padded ''/app/views/partials''" "is_directory padded ''/app/shared''"
    by (simp_all add: is_directory_def padded_def padded_fs_def mem_fs_def ns_dirs_def demo_def
        create_def)
  have f: "fs_readFile (fs padded) ''/app/views/home.handlebars'' ''utf8'' =
       Inr ''\<newline>\<newline><p>{{title}}</p>\<newline>''"
    and c: "truthy (get cache_options ''cache'')" "map_of (compiled padded) ''/app/views/home.handlebars'' = None"
      "map_of (fsCache padded) ''/app/views/home.handlebars'' = None"
    and r: "fst (render ''views/home.handlebars'' title_context cache_options padded) = Inr ''<p>Hi</p>''"
    and t: "js_trim ''\<newline>\<newline><p>{{title}}</p>\<newline>'' = ''<p>{{title}}</p>''"
    and h: "hb_compile (handlebars padded) ''<p>{{title}}</p>'' (compilerOptions padded) =
        Inr ''<p>{{title}}</p>''"
    by code_simp+
  have "map (\<lambda>(k, c). (k, js_trim c))
         [(''/app/views/home.handlebars'', '' <p>{{title}}</p>  ''),
          (''/app/views/partials/card.handlebars'', ''<div>card</div>''),
          (''/app/shared/card.handlebars'', ''\<newline><div>shared</div>'')] =
        map (\<lambda>(k, c). (k, js_trim c))
         [(''/app/views/home.handlebars'', ''\<newline>\<newline><p>{{title}}</p>\<newline>''),
          (''/app/views/partials/card.handlebars'', ''  <div>card</div>\<newline>''),
          (''/app/shared/card.handlebars'', ''<div>shared</div>\<newline>\<newline>'')]"
    by code_simp
  from trim_files_mem_fs[OF this] have q: "trim_files spaced = trim_files padded"
    by (simp add: spaced_def padded_def padded_fs_def)
  show ?thesis
    using render_trims_template_and_output[OF a p e refl,
        of title_context "''<p>Hi</p>''"]
    by (simp add: a l d f c r t h q)
qed

section \<open>Views and layouts\<close>

lemma derive_dirs_state:
  assumes "derive_dirs viewsPath viewPath s = Inr (view, s1)"
  shows "unchanged (s\<lparr>partialsDir := partialsDir s1, layoutsDir := layoutsDir s1\<rparr>) s1
     \<and> io s1 = io s \<and> compiled s1 = compiled s \<and> precompiled s1 = precompiled s
     \<and> fsCache s1 = fsCache s
     \<and> (\<not> truthy viewsPath \<longrightarrow> s1 = s)"
  using assms
  by (auto simp: derive_dirs_def unchanged_def split: if_splits jsval.splits)

lemma prepare_view_cases:
  assumes "prepare_view viewPath arg s = (Inr (context, renderOptions), s2)"
  obtains viewsPath view s1 ps where
    "resolveViewsPath (cwd s) (views_of (view_options arg)) viewPath = Inr viewsPath"
    "derive_dirs viewsPath viewPath s = Inr (view, s1)"
    "getPartials (render_opts (view_options arg) s1) s1 = (Inr ps, s2)"
    "context = view_options arg"
    "renderOptions = render_options (view_options arg) view ps s1 s2"
proof -
  from assms obtain viewsPath where
    a: "resolveViewsPath (cwd s) (views_of (view_options arg)) viewPath = Inr viewsPath"
    unfolding prepare_view_def
    by (cases "resolveViewsPath (cwd s) (views_of (view_options arg)) viewPath") auto
  from assms a obtain view s1 where b: "derive_dirs viewsPath viewPath s = Inr (view, s1)"
    unfolding prepare_view_def
    by (cases "derive_dirs viewsPath viewPath s") auto
  obtain r s2' where c: "getPartials (render_opts (view_options arg) s1) s1 = (r, s2')"
    by (cases "getPartials (render_opts (view_options arg) s1) s1")
  from assms a b c obtain ps where d: "r = Inr ps"
    unfolding prepare_view_def by (cases r) auto
  from assms a b c d have "s2' = s2" "context = view_options arg"
    "renderOptions = render_options (view_options arg) view ps s1 s2"
    unfolding prepare_view_def by auto
  with a b c d that show ?thesis by blast
qed

lemma prepare_view_state:
  assumes "prepare_view viewPath arg s = (r, s2)"
  shows "\<exists>evs. unchanged (s\<lparr>partialsDir := partialsDir s2, layoutsDir := layoutsDir s2\<rparr>) s2
     \<and> io s2 = io s @ evs \<and> list_all (\<lambda>e. \<not> is_render e) evs"
proof -
  have triv: "\<exists>evs. unchanged (s\<lparr>partialsDir := partialsDir s, layoutsDir := layoutsDir s\<rparr>) s
     \<and> io s = io s @ evs \<and> list_all (\<lambda>e. \<not> is_render e) evs"
    by (simp add: unchanged_def)
  show ?thesis
  proof (cases "resolveViewsPath (cwd s) (views_of (view_options arg)) viewPath")
    case (Inl err)
    with assms have "s2 = s" unfolding prepare_view_def by simp
    with triv show ?thesis by simp
  next
    case (Inr viewsPath)
    show ?thesis
    proof (cases "derive_dirs viewsPath viewPath s")
      case (Inl err)
      with assms Inr have "s2 = s" unfolding prepare_view_def by simp
      with triv show ?thesis by simp
    next
      case d: (Inr vs)
      obtain view s1 where vs: "vs = (view, s1)" by (cases vs)
      from derive_dirs_state[OF d[unfolded vs]]
      have u1: "unchanged (s\<lparr>partialsDir := partialsDir s1, layoutsDir := layoutsDir s1\<rparr>) s1"
        and io1: "io s1 = io s" by simp_all
      have "snd (getPartials (render_opts (view_options arg) s1) s1) = s2"
        using assms Inr d vs unfolding prepare_view_def
        by (auto split: prod.splits sum.splits)
      with getPartials_grows[of s1 "render_opts (view_options arg) s1"]
      obtain evs where u2: "unchanged s1 s2" and io2: "io s2 = io s1 @ evs"
        and nr: "list_all (\<lambda>e. \<not> is_render e) evs"
        unfolding grows_def by auto
      have "unchanged (s\<lparr>partialsDir := partialsDir s2, layoutsDir := layoutsDir s2\<rparr>) s2"
        using u1 u2 by (simp add: unchanged_def)
      with io1 io2 nr show ?thesis by auto
    qed
  qed
qed

lemma resolveLayoutPath_falsy:
  "\<not> truthy layout \<Longrightarrow> resolveLayoutPath layout s = Inr None"
  by (simp add: resolveLayoutPath_def)

lemma resolveLayoutPath_name:
  "name \<noteq> [] \<Longrightarrow>
   resolveLayoutPath (Str name) s =
     Inr (Some (path_resolve (cwd s)
                  [case layoutsDir s of None \<Rightarrow> [] | Some d \<Rightarrow> d,
                   if path_extname name = [] then name @ extname s else name]))"
  by (auto simp: resolveLayoutPath_def Let_def str_truthy_def split: option.splits)

lemma renderView_unfold:
  assumes "prepare_view viewPath arg s = (Inr (context, renderOptions), s2)"
  shows "renderView viewPath arg s =
    (case render viewPath context renderOptions s2 of
       (Inl err, s3) \<Rightarrow> (Inl err, s3)
     | (Inr html, s3) \<Rightarrow>
         (case resolveLayoutPath (get renderOptions ''layout'') s3 of
            Inl err \<Rightarrow> (Inl err, s3)
          | Inr None \<Rightarrow> (Inr html, s3)
          | Inr (Some layoutPath) \<Rightarrow>
              render layoutPath
                (set_key ''body'' (Str html) (spread [] context))
                (set_key ''layout'' Undefined (spread [] renderOptions))
                s3))"
  using assms by (simp add: renderView_def)

lemma get_render_options_layout:
  "get (render_options options view ps s1 s2) ''layout'' =
     (if has_key ''layout'' options then get options ''layout'' else defaultLayout s2)"
  by (simp add: render_options_def get_def)

text \<open>
  C3. When the layout in effect is a name and the view has been rendered, \<open>renderView\<close>
  returns what \<open>render\<close> returns for the layout. The path of the layout is the name,
  with the extension of the instance appended when the name has none, resolved against
  the layouts directory. The context of that call is the context of the view with
  \<open>body\<close> bound to the HTML of the view and every other key as before, and its options
  are the options of the view with \<open>layout\<close> undefined.
\<close>

theorem layout_wraps_rendered_view:
  assumes prep: "prepare_view viewPath arg s = (Inr (context, renderOptions), s2)"
    and view: "render viewPath context renderOptions s2 = (Inr html, s3)"
    and layout: "get renderOptions ''layout'' = Str name"
    and ne: "name \<noteq> []"
  shows "renderView viewPath arg s =
           render (path_resolve (cwd s)
                     [case layoutsDir s2 of None \<Rightarrow> [] | Some d \<Rightarrow> d,
                      if path_extname name = [] then name @ extname s else name])
             (set_key ''body'' (Str html) (spread [] context))
             (set_key ''layout'' Undefined (spread [] renderOptions)) s3
     \<and> (\<forall>k. get (set_key ''body'' (Str html) (spread [] context)) k =
              (if k = ''body'' then Str html else get context k))
     \<and> (\<forall>k. get (set_key ''layout'' Undefined (spread [] renderOptions)) k =
              (if k = ''layout'' then Undefined else get renderOptions k))"
proof -
  from prepare_view_state[OF prep]
  have u2: "unchanged (s\<lparr>partialsDir := partialsDir s2, layoutsDir := layoutsDir s2\<rparr>) s2"
    by blast
  from render_state[of s2 viewPath "context" renderOptions] view
  have u3: "unchanged s2 s3" by auto
  from u2 u3 have eq: "cwd s3 = cwd s" "extname s3 = extname s" "layoutsDir s3 = layoutsDir s2"
    by (simp_all add: unchanged_def)
  have "renderView viewPath arg s =
           render (path_resolve (cwd s)
                     [case layoutsDir s2 of None \<Rightarrow> [] | Some d \<Rightarrow> d,
                      if path_extname name = [] then name @ extname s else name])
             (set_key ''body'' (Str html) (spread [] context))
             (set_key ''layout'' Undefined (spread [] renderOptions)) s3"
    unfolding renderView_unfold[OF prep] view layout
    by (simp add: resolveLayoutPath_name[OF ne] eq)
  then show ?thesis
    by (simp add: get_set_key get_spread_empty)
qed

theorem layout_wraps_rendered_view_witness:
  "fst (prepare_view ''/app/views/home.handlebars'' (Options home_options) demo) =
     Inr (home_options, home_render_options)
   \<and> fst (render ''/app/views/home.handlebars'' home_options home_render_options
            (snd (prepare_view ''/app/views/home.handlebars'' (Options home_options) demo))) =
       Inr ''<p>Hi</p>''
   \<and> get home_render_options ''layout'' = Str ''main''
   \<and> layoutsDir (snd (prepare_view ''/app/views/home.handlebars'' (Options home_options) demo)) =
       Some ''/app/views/layouts/''
   \<and> path_resolve (cwd demo) [''/app/views/layouts/'', ''main'' @ extname demo] =
       ''/app/views/layouts/main.handlebars''
   \<and> fst (renderView ''/app/views/home.handlebars'' (Options home_options) demo) =
       Inr ''<body><p>Hi</p></body>''"
proof -
  define s2 where "s2 = snd (prepare_view ''/app/views/home.handlebars'' (Options home_options) demo)"
  define s3 where "s3 = snd (render ''/app/views/home.handlebars'' home_options home_render_options s2)"
  have a: "fst (prepare_view ''/app/views/home.handlebars'' (Options home_options) demo) =
     Inr (home_options, home_render_options)"
    by code_simp
  then have prep: "prepare_view ''/app/views/home.handlebars'' (Options home_options) demo =
     (Inr (home_options, home_render_options), s2)"
    unfolding s2_def
    by (cases "prepare_view ''/app/views/home.handlebars'' (Options home_options) demo") simp
  have b: "fst (render ''/app/views/home.handlebars'' home_options home_render_options
            (snd (prepare_view ''/app/views/home.handlebars'' (Options home_options) demo))) =
       Inr ''<p>Hi</p>''"
    by code_simp
  then have view: "render ''/app/views/home.handlebars'' home_options home_render_options s2 =
       (Inr ''<p>Hi</p>'', s3)"
    unfolding s3_def s2_def
    by (cases "render ''/app/views/home.handlebars'' home_options home_render_options
            (snd (prepare_view ''/app/views/home.handlebars'' (Options home_options) demo))") simp
  have l: "get home_render_options ''layout'' = Str ''main''"
    and d: "layoutsDir (snd (prepare_view ''/app/views/home.handlebars'' (Options home_options) demo)) =
       Some ''/app/views/layouts/''"
    and p: "path_resolve (cwd demo) [''/app/views/layouts/'', ''main'' @ extname demo] =
       ''/app/views/layouts/main.handlebars''"
    and r: "fst (renderView ''/app/views/home.handlebars'' (Options home_options) demo) =
       Inr ''<body><p>Hi</p></body>''"
    by code_simp+
  have ne: "''main'' \<noteq> []" by simp
  from layout_wraps_rendered_view[OF prep view l ne] a b l d p r show ?thesis
    by simp
qed

text \<open>
  C6. The layout that \<open>renderView\<close> puts into the options of \<open>render\<close> is the
  \<open>layout\<close> property of the options whenever the options have that key, also when its
  value is false, null or undefined, and the default layout of the instance only when
  they have no such key. When that layout is falsy, \<open>_resolveLayoutPath\<close> returns nothing,
  \<open>renderView\<close> returns what the one call of \<open>render\<close> for the view returns, and
  \<open>render\<close> has been entered once, for the view.
\<close>

theorem explicit_layout_option_wins:
  assumes prep: "prepare_view viewPath arg s = (Inr (context, renderOptions), s2)"
  shows "get renderOptions ''layout'' =
           (if has_key ''layout'' (view_options arg) then get (view_options arg) ''layout''
            else defaultLayout s)
     \<and> (\<not> truthy (get renderOptions ''layout'') \<longrightarrow>
          (\<forall>s3. resolveLayoutPath (get renderOptions ''layout'') s3 = Inr None)
          \<and> renderView viewPath arg s = render viewPath context renderOptions s2
          \<and> filter is_render (io (snd (renderView viewPath arg s))) =
              filter is_render (io s) @ [Render viewPath])"
proof -
  from prepare_view_state[OF prep] obtain evs where
    u2: "unchanged (s\<lparr>partialsDir := partialsDir s2, layoutsDir := layoutsDir s2\<rparr>) s2"
    and io2: "io s2 = io s @ evs" and nr2: "list_all (\<lambda>e. \<not> is_render e) evs"
    by blast
  from prep obtain view ps s1 where
    ro: "renderOptions = render_options (view_options arg) view ps s1 s2"
    by (rule prepare_view_cases)
  have dl: "defaultLayout s2 = defaultLayout s" using u2 by (simp add: unchanged_def)
  have lay: "get renderOptions ''layout'' =
           (if has_key ''layout'' (view_options arg) then get (view_options arg) ''layout''
            else defaultLayout s)"
    unfolding ro get_render_options_layout dl ..
  have none: "(\<forall>s3. resolveLayoutPath (get renderOptions ''layout'') s3 = Inr None)
          \<and> renderView viewPath arg s = render viewPath context renderOptions s2
          \<and> filter is_render (io (snd (renderView viewPath arg s))) =
              filter is_render (io s) @ [Render viewPath]"
    if f: "\<not> truthy (get renderOptions ''layout'')"
  proof -
    have rv: "renderView viewPath arg s = render viewPath context renderOptions s2"
      unfolding renderView_unfold[OF prep]
      by (auto simp: resolveLayoutPath_falsy[OF f] split: prod.splits sum.splits)
    from render_state[of s2 viewPath "context" renderOptions] obtain evs' where
      io3: "io (snd (render viewPath context renderOptions s2)) = io s2 @ Render viewPath # evs'"
      and nr3: "list_all (\<lambda>e. \<not> is_render e) evs'" by blast
    have "filter is_render evs = []" "filter is_render evs' = []"
      using nr2 nr3 by (simp_all add: list_all_iff filter_empty_conv)
    then have "filter is_render (io (snd (renderView viewPath arg s))) =
              filter is_render (io s) @ [Render viewPath]"
      unfolding rv io3 io2 by simp
    with rv resolveLayoutPath_falsy[OF f] show ?thesis by simp
  qed
  from lay none show ?thesis by blast
qed

theorem explicit_layout_option_wins_witness:
  "fst (prepare_view ''/app/views/home.handlebars'' (Options no_layout_options) demo) =
     Inr (no_layout_options, no_layout_render_options)
   \<and> defaultLayout demo = Str ''main''
   \<and> has_key ''layout'' (view_options (Options no_layout_options))
   \<and> get no_layout_render_options ''layout'' = Bool False
   \<and> \<not> truthy (get no_layout_render_options ''layout'')
   \<and> fst (renderView ''/app/views/home.handlebars'' (Options no_layout_options) demo) =
       Inr ''<p>Hi</p>''
   \<and> filter is_render (io (snd (renderView ''/app/views/home.handlebars''
                                   (Options no_layout_options) demo))) =
       [Render ''/app/views/home.handlebars'']"
proof -
  define s2 where
    "s2 = snd (prepare_view ''/app/views/home.handlebars'' (Options no_layout_options) demo)"
  have a: "fst (prepare_view ''/app/views/home.handlebars'' (Options no_layout_options) demo) =
     Inr (no_layout_options, no_layout_render_options)"
    by code_simp
  then have prep: "prepare_view ''/app/views/home.handlebars'' (Options no_layout_options) demo =
     (Inr (no_layout_options, no_layout_render_options), s2)"
    unfolding s2_def
    by (cases "prepare_view ''/app/views/home.handlebars'' (Options no_layout_options) demo") simp
  have d: "defaultLayout demo = Str ''main''"
    and h: "has_key ''layout'' (view_options (Options no_layout_options))"
    and l: "get no_layout_render_options ''layout'' = Bool False"
    and r: "fst (renderView ''/app/views/home.handlebars'' (Options no_layout_options) demo) =
       Inr ''<p>Hi</p>''"
    and i: "io demo = []"
    by code_simp+
  have nt: "\<not> truthy (get no_layout_render_options ''layout'')" by (simp add: l)
  with explicit_layout_option_wins[OF prep]
  have "filter is_render (io (snd (renderView ''/app/views/home.handlebars''
                                   (Options no_layout_options) demo))) =
       filter is_render (io demo) @ [Render ''/app/views/home.handlebars'']"
    by blast
  with a d h l r i nt show ?thesis
    by simp
qed

text \<open>
  C10. When the second argument of \<open>renderView\<close> is an options object, that object is
  the context with which the view is rendered: the template of the view is invoked with
  the options object as its first argument, so every key of the options is a variable
  of the template; the context of the layout is the same object with \<open>body\<close> added.
\<close>

theorem options_object_is_context:
  assumes prep: "prepare_view viewPath (Options ob) s = (Inr (context, renderOptions), s2)"
  shows "context = ob
     \<and> renderView viewPath (Options ob) s =
         (case render viewPath ob renderOptions s2 of
            (Inl err, s3) \<Rightarrow> (Inl err, s3)
          | (Inr html, s3) \<Rightarrow>
              (case resolveLayoutPath (get renderOptions ''layout'') s3 of
                 Inl err \<Rightarrow> (Inl err, s3)
               | Inr None \<Rightarrow> (Inr html, s3)
               | Inr (Some layoutPath) \<Rightarrow>
                   render layoutPath
                     (set_key ''body'' (Str html) (spread [] ob))
                     (set_key ''layout'' Undefined (spread [] renderOptions))
                     s3))
     \<and> (\<forall>html s3. render viewPath ob renderOptions s2 = (Inr html, s3) \<longrightarrow>
          (\<exists>t pv out.
             hb_invoke (handlebars s) t ob (template_options viewPath renderOptions pv s3) = Inr out
             \<and> html = js_trim out))"
proof -
  from prep have c: "context = ob"
    by (rule prepare_view_cases) (simp add: view_options_def)
  from prepare_view_state[OF prep]
  have h: "handlebars s2 = handlebars s" by (auto simp: unchanged_def)
  have inv: "\<exists>t pv out.
             hb_invoke (handlebars s) t ob (template_options viewPath renderOptions pv s3) = Inr out
             \<and> html = js_trim out"
    if "render viewPath ob renderOptions s2 = (Inr html, s3)" for html s3
    using render_success[OF that] unfolding h .
  from c inv renderView_unfold[OF prep[unfolded c]] show ?thesis by simp
qed

theorem options_object_is_context_witness:
  "fst (prepare_view ''/app/views/echo.handlebars'' (Options echo_options) demo) =
     Inr (echo_options, echo_render_options)
   \<and> fs_readFile (fs demo) ''/app/views/echo.handlebars'' ''latin1'' = Inr ''{{encoding}}|{{title}}''
   \<and> get echo_options ''encoding'' = Str ''latin1''
   \<and> fst (renderView ''/app/views/echo.handlebars'' (Options echo_options) demo) =
       Inr ''latin1|Hi''"
proof -
  define s2 where
    "s2 = snd (prepare_view ''/app/views/echo.handlebars'' (Options echo_options) demo)"
  have a: "fst (prepare_view ''/app/views/echo.handlebars'' (Options echo_options) demo) =
     Inr (echo_options, echo_render_options)"
    by code_simp
  then have prep: "prepare_view ''/app/views/echo.handlebars'' (Options echo_options) demo =
     (Inr (echo_options, echo_render_options), s2)"
    unfolding s2_def
    by (cases "prepare_view ''/app/views/echo.handlebars'' (Options echo_options) demo") simp
  have f: "fs_readFile (fs demo) ''/app/views/echo.handlebars'' ''latin1'' = Inr ''{{encoding}}|{{title}}''"
    and g: "get echo_options ''encoding'' = Str ''latin1''"
    and r: "fst (renderView ''/app/views/echo.handlebars'' (Options echo_options) demo) =
       Inr ''latin1|Hi''"
    by code_simp+
  from options_object_is_context[OF prep] a f g r show ?thesis
    by simp
qed

section \<open>The views directory\<close>

lemma nth_parent_shift:
  "nth_parent (Suc k) p = (if path_dirname p = p then None else nth_parent k (path_dirname p))"
proof (induction k)
  case 0
  show ?case by simp
next
  case (Suc k)
  have "nth_parent (Suc (Suc k)) p =
      (case nth_parent (Suc k) p of
         None \<Rightarrow> None
       | Some d \<Rightarrow> if path_dirname d = d then None else Some (path_dirname d))"
    by simp
  also have "\<dots> = (if path_dirname p = p then None else nth_parent (Suc k) (path_dirname p))"
    unfolding Suc.IH by simp
  finally show ?case .
qed

lemma index_of_None: "index_of xs d = None \<longleftrightarrow> d \<notin> set xs"
  by (induction xs) auto

lemma index_of_Some:
  "index_of xs d = Some i \<Longrightarrow> i < length xs \<and> xs ! i = d \<and> (\<forall>j<i. xs ! j \<noteq> d)"
proof (induction xs arbitrary: i)
  case Nil
  then show ?case by simp
next
  case (Cons x xs)
  show ?case
  proof (cases "x = d")
    case True
    with Cons.prems show ?thesis by simp
  next
    case False
    with Cons.prems obtain i' where i': "index_of xs d = Some i'" "i = Suc i'" by auto
    from Cons.IH[OF i'(1)] False i'(2) show ?thesis
      by (auto simp: nth_Cons split: nat.splits)
  qed
qed

lemma walk_up_unfold:
  "walk_up views absoluteViews lastDir =
     (if path_dirname lastDir \<noteq> lastDir then
        (case index_of absoluteViews (path_dirname lastDir) of
           Some index \<Rightarrow> Some (views ! index)
         | None \<Rightarrow> walk_up views absoluteViews (path_dirname lastDir))
      else None)"
  by (subst walk_up.simps) (simp add: Let_def)

lemma walk_up_Some:
  "walk_up views absoluteViews p = Some v \<Longrightarrow>
   \<exists>k d i. 0 < k \<and> nth_parent k p = Some d \<and> index_of absoluteViews d = Some i \<and> v = views ! i
     \<and> (\<forall>j d'. 0 < j \<and> j < k \<and> nth_parent j p = Some d' \<longrightarrow> d' \<notin> set absoluteViews)"
proof (induction views absoluteViews p rule: walk_up.induct)
  case (1 views absoluteViews lastDir)
  define dir where "dir = path_dirname lastDir"
  from "1.prems" have ne: "dir \<noteq> lastDir"
    unfolding dir_def by (subst (asm) walk_up_unfold) (auto split: if_splits)
  show ?case
  proof (cases "index_of absoluteViews dir")
    case (Some i)
    with "1.prems" ne have v: "v = views ! i"
      unfolding dir_def by (subst (asm) walk_up_unfold) auto
    have "nth_parent 1 lastDir = Some dir" using ne by (simp add: dir_def)
    with Some v show ?thesis
      by (intro exI[of _ 1] exI[of _ dir] exI[of _ i]) simp
  next
    case None
    with "1.prems" ne have rec: "walk_up views absoluteViews dir = Some v"
      unfolding dir_def by (subst (asm) walk_up_unfold) auto
    from "1.IH"[OF dir_def ne None rec] obtain k d i where
      k: "0 < k" "nth_parent k dir = Some d" "index_of absoluteViews d = Some i" "v = views ! i"
      and near: "\<forall>j d'. 0 < j \<and> j < k \<and> nth_parent j dir = Some d' \<longrightarrow> d' \<notin> set absoluteViews"
      by blast
    have shift: "nth_parent (Suc j) lastDir = nth_parent j dir" for j
      using ne by (simp add: nth_parent_shift dir_def del: nth_parent.simps)
    have "\<forall>j d'. 0 < j \<and> j < Suc k \<and> nth_parent j lastDir = Some d' \<longrightarrow> d' \<notin> set absoluteViews"
    proof (intro allI impI)
      fix j d'
      assume a: "0 < j \<and> j < Suc k \<and> nth_parent j lastDir = Some d'"
      then obtain j' where j': "j = Suc j'" by (cases j) auto
      show "d' \<notin> set absoluteViews"
      proof (cases j')
        case 0
        with a j' shift[of 0] have "d' = dir" by simp
        with None show ?thesis by (simp add: index_of_None)
      next
        case (Suc m)
        have "nth_parent j' dir = Some d'"
          using a j' shift[of j'] by (simp del: nth_parent.simps)
        moreover have "0 < j'" "j' < k" using Suc a j' by simp_all
        ultimately show ?thesis using near by blast
      qed
    qed
    with k shift[of k] show ?thesis
      by (intro exI[of _ "Suc k"] exI[of _ d] exI[of _ i]) (simp del: nth_parent.simps)
  qed
qed

lemma walk_up_None:
  "walk_up views absoluteViews p = None \<Longrightarrow>
   \<forall>k d. 0 < k \<and> nth_parent k p = Some d \<longrightarrow> d \<notin> set absoluteViews"
proof (induction views absoluteViews p rule: walk_up.induct)
  case (1 views absoluteViews lastDir)
  define dir where "dir = path_dirname lastDir"
  show ?case
  proof (cases "dir = lastDir")
    case True
    then have "nth_parent (Suc j) lastDir = None" for j
      by (simp add: nth_parent_shift dir_def del: nth_parent.simps)
    then show ?thesis
      by (metis Suc_pred option.distinct(1))
  next
    case ne: False
    from "1.prems" ne have none: "index_of absoluteViews dir = None"
      unfolding dir_def by (subst (asm) walk_up_unfold) (auto split: option.splits)
    with "1.prems" ne have rec: "walk_up views absoluteViews dir = None"
      unfolding dir_def by (subst (asm) walk_up_unfold) auto
    from "1.IH"[OF dir_def ne none rec]
    have ih: "\<forall>k d. 0 < k \<and> nth_parent k dir = Some d \<longrightarrow> d \<notin> set absoluteViews" .
    have shift: "nth_parent (Suc j) lastDir = nth_parent j dir" for j
      using ne by (simp add: nth_parent_shift dir_def del: nth_parent.simps)
    show ?thesis
    proof (intro allI impI)
      fix k d
      assume a: "0 < k \<and> nth_parent k lastDir = Some d"
      then obtain k' where k': "k = Suc k'" by (cases k) auto
      show "d \<notin> set absoluteViews"
      proof (cases k')
        case 0
        with a k' shift[of 0] have "d = dir" by simp
        with none show ?thesis by (simp add: index_of_None)
      next
        case (Suc m)
        have "nth_parent k' dir = Some d"
          using a k' shift[of k'] by (simp del: nth_parent.simps)
        moreover have "0 < k'" using Suc by simp
        ultimately show ?thesis using ih by blast
      qed
    qed
  qed
qed

lemma renderView_without_root:
  assumes root: "resolveViewsPath (cwd s) (views_of (view_options arg)) viewPath = Inr viewsPath"
    and falsy: "\<not> truthy viewsPath"
  shows "unchanged s (snd (renderView viewPath arg s))"
proof -
  have d: "derive_dirs viewsPath viewPath s = Inr (Undefined, s)"
    using falsy by (simp add: derive_dirs_def)
  obtain r s2 where gp: "getPartials (render_opts (view_options arg) s) s = (r, s2)"
    by (cases "getPartials (render_opts (view_options arg) s) s")
  have u2: "unchanged s s2"
    using grows_unchanged[OF getPartials_grows[of s "render_opts (view_options arg) s"]] gp
    by simp
  show ?thesis
  proof (cases r)
    case (Inl err)
    then have "snd (renderView viewPath arg s) = s2"
      by (simp add: renderView_def prepare_view_def root d gp)
    with u2 show ?thesis by simp
  next
    case (Inr ps)
    define ro where "ro = render_options (view_options arg) Undefined ps s s2"
    have prep: "prepare_view viewPath arg s = (Inr (view_options arg, ro), s2)"
      by (simp add: prepare_view_def root d gp Inr ro_def)
    obtain r3 s3 where rv: "render viewPath (view_options arg) ro s2 = (r3, s3)"
      by (cases "render viewPath (view_options arg) ro s2")
    have u3: "unchanged s2 s3"
      using render_state[of s2 viewPath "view_options arg" ro] rv by auto
    have "unchanged s3 (snd (renderView viewPath arg s))"
    proof (cases r3)
      case (Inl err)
      then show ?thesis
        unfolding renderView_unfold[OF prep] rv by (simp add: unchanged_refl)
    next
      case html: (Inr html)
      show ?thesis
      proof (cases "resolveLayoutPath (get ro ''layout'') s3")
        case (Inl err)
        then show ?thesis
          unfolding renderView_unfold[OF prep] rv html by (simp add: unchanged_refl)
      next
        case lp: (Inr lpo)
        show ?thesis
        proof (cases lpo)
          case None
          with lp show ?thesis
            unfolding renderView_unfold[OF prep] rv html by (simp add: unchanged_refl)
        next
          case (Some layoutPath)
          with lp render_state[of s3 layoutPath] show ?thesis
            unfolding renderView_unfold[OF prep] rv html by auto
        qed
      qed
    qed
    with unchanged_trans[OF u2 u3] show ?thesis by (rule unchanged_trans)
  qed
qed

lemma strings_of_Str: "strings_of (map Str vs) = Some vs"
  by (induction vs) simp_all

text \<open>
  C7, as stated: when \<open>renderView\<close> is given a views search path, a single path or a list,
  the root that is resolved is the nearest ancestor directory of the view, found by
  walking up the parent directories. For a single path this fails: the path is taken as
  the root as it is. Here \<open>/other\<close> is no ancestor of \<open>/app/views/home.handlebars\<close>,
  whose parents are \<open>/app/views\<close>, \<open>/app\<close> and \<open>/\<close>, and yet it is the root, and the
  partials and layouts directories are derived from it.
\<close>

theorem single_views_path_counterexample:
  "resolveViewsPath ''/app'' (views_of other_options) ''/app/views/home.handlebars'' =
     Inr (Str ''/other'')
   \<and> path_resolve ''/app'' [''/app/views/home.handlebars''] = ''/app/views/home.handlebars''
   \<and> nth_parent 1 ''/app/views/home.handlebars'' = Some ''/app/views''
   \<and> nth_parent 2 ''/app/views/home.handlebars'' = Some ''/app''
   \<and> nth_parent 3 ''/app/views/home.handlebars'' = Some ''/''
   \<and> nth_parent 4 ''/app/views/home.handlebars'' = None
   \<and> path_resolve ''/app'' [''/other''] = ''/other''
   \<and> cwd demo = ''/app''
   \<and> dir_paths (partialsDir demo) = []
   \<and> dir_paths (partialsDir (snd (renderView ''/app/views/home.handlebars''
                                      (Options other_options) demo))) =
       [Some ''/other/partials/'']
   \<and> layoutsDir (snd (renderView ''/app/views/home.handlebars'' (Options other_options) demo)) =
       Some ''/other/layouts/''"
  by code_simp

text \<open>
  C7, amended. When the views search path is a list of paths, \<open>_resolveViewsPath\<close>
  returns null or one of the listed paths. A path that is returned is the first in the
  list that resolves to some parent directory of the resolved view path, and no nearer
  parent directory is the resolution of any listed path; null is returned when no
  parent directory, up to the root, is the resolution of a listed path. When the
  search path is a single path, or is missing, it is returned as it is, without any
  walk. Whenever the root that is returned is falsy (null, undefined or the empty
  string), \<open>renderView\<close> leaves the partials directory and the layouts directory of the
  instance as they were.
\<close>

theorem views_root_is_nearest_listed_ancestor:
  assumes r: "r = path_resolve wd [file]"
  shows
    "(resolveViewsPath wd (Arr (map Str views)) file = Inr Null
      \<or> (\<exists>v. resolveViewsPath wd (Arr (map Str views)) file = Inr (Str v)))
     \<and> (resolveViewsPath wd (Arr (map Str views)) file = Inr (Str v) \<longrightarrow>
          (\<exists>k d i. 0 < k \<and> nth_parent k r = Some d
             \<and> i < length views \<and> v = views ! i \<and> path_resolve wd [views ! i] = d
             \<and> (\<forall>j<i. path_resolve wd [views ! j] \<noteq> d)
             \<and> (\<forall>j d'. 0 < j \<and> j < k \<and> nth_parent j r = Some d' \<longrightarrow>
                   d' \<notin> (\<lambda>c. path_resolve wd [c]) ` set views)))
     \<and> (resolveViewsPath wd (Arr (map Str views)) file = Inr Null \<longrightarrow>
          (\<forall>k d. 0 < k \<and> nth_parent k r = Some d \<longrightarrow> d \<notin> (\<lambda>c. path_resolve wd [c]) ` set views))
     \<and> resolveViewsPath wd (Str single) file = Inr (Str single)
     \<and> resolveViewsPath wd Undefined file = Inr Undefined
     \<and> (resolveViewsPath (cwd s) (views_of (view_options arg)) file = Inr root \<and> \<not> truthy root \<longrightarrow>
          partialsDir (snd (renderView file arg s)) = partialsDir s
          \<and> layoutsDir (snd (renderView file arg s)) = layoutsDir s)"
proof -
  define av where "av = map (\<lambda>v. path_resolve wd [v]) views"
  have rv: "resolveViewsPath wd (Arr (map Str views)) file =
      (case walk_up views av r of Some v \<Rightarrow> Inr (Str v) | None \<Rightarrow> Inr Null)"
    by (simp add: resolveViewsPath_def strings_of_Str Let_def r av_def)
  have total: "resolveViewsPath wd (Arr (map Str views)) file = Inr Null
      \<or> (\<exists>v. resolveViewsPath wd (Arr (map Str views)) file = Inr (Str v))"
    unfolding rv by (cases "walk_up views av r") auto
  have some: "\<exists>k d i. 0 < k \<and> nth_parent k r = Some d
             \<and> i < length views \<and> v = views ! i \<and> path_resolve wd [views ! i] = d
             \<and> (\<forall>j<i. path_resolve wd [views ! j] \<noteq> d)
             \<and> (\<forall>j d'. 0 < j \<and> j < k \<and> nth_parent j r = Some d' \<longrightarrow>
                   d' \<notin> (\<lambda>c. path_resolve wd [c]) ` set views)"
    if "resolveViewsPath wd (Arr (map Str views)) file = Inr (Str v)"
  proof -
    from that have "walk_up views av r = Some v"
      unfolding rv by (cases "walk_up views av r") auto
    from walk_up_Some[OF this] obtain k d i where
      k: "0 < k" "nth_parent k r = Some d" "index_of av d = Some i" "v = views ! i"
      and near: "\<forall>j d'. 0 < j \<and> j < k \<and> nth_parent j r = Some d' \<longrightarrow> d' \<notin> set av"
      by blast
    from index_of_Some[OF k(3)]
    have i: "i < length views" "path_resolve wd [views ! i] = d"
      "\<forall>j<i. path_resolve wd [views ! j] \<noteq> d"
      by (auto simp: av_def)
    have "set av = (\<lambda>c. path_resolve wd [c]) ` set views" by (simp add: av_def)
    with k i near show ?thesis by metis
  qed
  have none: "\<forall>k d. 0 < k \<and> nth_parent k r = Some d \<longrightarrow> d \<notin> (\<lambda>c. path_resolve wd [c]) ` set views"
    if "resolveViewsPath wd (Arr (map Str views)) file = Inr Null"
  proof -
    from that have "walk_up views av r = None"
      unfolding rv by (cases "walk_up views av r") auto
    from walk_up_None[OF this] show ?thesis by (simp add: av_def)
  qed
  have single: "resolveViewsPath wd (Str single) file = Inr (Str single)"
    "resolveViewsPath wd Undefined file = Inr Undefined"
    by (simp_all add: resolveViewsPath_def)
  have dirs: "partialsDir (snd (renderView file arg s)) = partialsDir s
          \<and> layoutsDir (snd (renderView file arg s)) = layoutsDir s"
    if "resolveViewsPath (cwd s) (views_of (view_options arg)) file = Inr root" "\<not> truthy root"
    using renderView_without_root[OF that] by (simp add: unchanged_def)
  from total some none single dirs show ?thesis by blast
qed

theorem views_root_is_nearest_listed_ancestor_witness:
  "''/app/views/home.handlebars'' = path_resolve ''/app'' [''/app/views/home.handlebars'']
   \<and> views_of listed_options = Arr [Str ''/other'', Str ''/app'', Str ''views'', Str ''/app/views'']
   \<and> resolveViewsPath ''/app'' (views_of listed_options) ''/app/views/home.handlebars'' =
       Inr (Str ''views'')
   \<and> nth_parent 1 ''/app/views/home.handlebars'' = Some ''/app/views''
   \<and> path_resolve ''/app'' [''views''] = ''/app/views''
   \<and> resolveViewsPath (cwd demo) (views_of (view_options (Options unlisted_options)))
         ''/app/views/home.handlebars'' = Inr Null
   \<and> \<not> truthy (Null :: string jsval)
   \<and> partialsDir (snd (renderView ''/app/views/home.handlebars'' (Options unlisted_options) demo)) =
       None
   \<and> layoutsDir (snd (renderView ''/app/views/home.handlebars'' (Options unlisted_options) demo)) =
       None"
proof -
  have r: "''/app/views/home.handlebars'' = path_resolve ''/app'' [''/app/views/home.handlebars'']"
    and v: "views_of listed_options =
              Arr [Str ''/other'', Str ''/app'', Str ''views'', Str ''/app/views'']"
    and a: "resolveViewsPath ''/app'' (views_of listed_options) ''/app/views/home.handlebars'' =
       Inr (Str ''views'')"
    and n: "nth_parent 1 ''/app/views/home.handlebars'' = Some ''/app/views''"
    and p: "path_resolve ''/app'' [''views''] = ''/app/views''"
    and u: "resolveViewsPath (cwd demo) (views_of (view_options (Options unlisted_options)))
         ''/app/views/home.handlebars'' = Inr Null"
    by code_simp+
  have d: "partialsDir demo = None" "layoutsDir demo = None"
    by (simp_all add: demo_def create_def)
  have t: "\<not> truthy (Null :: string jsval)" by simp
  from views_root_is_nearest_listed_ancestor[OF r,
      of "[''/other'', ''/app'', ''views'', ''/app/views'']" "''views''" _ demo
         "Options unlisted_options" Null] u t
  have "partialsDir (snd (renderView ''/app/views/home.handlebars'' (Options unlisted_options) demo)) =
          partialsDir demo
        \<and> layoutsDir (snd (renderView ''/app/views/home.handlebars'' (Options unlisted_options) demo)) =
          layoutsDir demo"
    by blast
  with r v a n p u t d show ?thesis by simp
qed

end
